theory Spec2Isabelle
  imports Complex_Main "HOL-Library.Char_ord" "HOL-Library.List_Lexorder"
begin

section \<open>Schema: ingest\_service/db/init/001\_tables.sql\<close>

text \<open>
  Tables are lists of rows, in storage order. \<open>TIMESTAMPTZ\<close> is an absolute instant,
  modelled as an integer (microseconds since the epoch); \<open>NUMERIC\<close> is an exact decimal,
  modelled as a rational. The special values NaN and Infinity are not modelled, and a
  quotient is the exact quotient: the engine rounds it to its result scale, of at least
  16 significant digits, which is not modelled. A nullable column is an \<open>option\<close>,
  with \<open>None\<close> for NULL; a \<open>NOT NULL\<close> column is a plain value.
\<close>

type_synonym timestamptz = int
type_synonym numeric = rat

record record_type_row =
  rt_id :: int
  rt_name :: string
  rt_version_id :: "int option"

record processed_record_row =
  pr_id :: int
  pr_device_id :: int
  pr_raw_data_id :: int
  pr_record_time :: timestamptz
  pr_type :: int
  pr_value :: numeric

subsection \<open>JSONB payloads\<close>

text \<open>
  A stored \<open>JSONB\<close> document. A number keeps its decimal digits and display scale
  (\<open>JNumber m s\<close> is \<open>m / 10 ^ s\<close>); an object is its list of members, keys distinct.
\<close>

datatype json =
    JNull
  | JBool bool
  | JNumber int nat
  | JString string
  | JArray "json list"
  | JObject "(string \<times> json) list"

record raw_record_row =
  rr_id :: int
  rr_raw_message :: json
  rr_arrival_time :: timestamptz

record ingest_error_row =
  ie_raw_data_id :: int
  ie_error :: string
  ie_created_at :: timestamptz

text \<open>
  The database: the four tables the views read, and the next values of the sequences
  behind the \<open>SERIAL\<close> and \<open>BIGSERIAL\<close> keys. The \<open>device\<close> and
  \<open>firmware_version\<close> tables are read by no view and are left out.
\<close>

record database =
  record_type :: "record_type_row list"
  raw_record :: "raw_record_row list"
  ingest_error :: "ingest_error_row list"
  processed_record :: "processed_record_row list"
  record_type_id_seq :: int
  raw_record_id_seq :: int
  processed_record_id_seq :: int

subsection \<open>Keys and unique indexes\<close>

definition record_type_pkey :: "record_type_row list \<Rightarrow> bool" where
  "record_type_pkey rts \<longleftrightarrow> distinct (map rt_id rts)"

definition uq_record_type_name :: "record_type_row list \<Rightarrow> bool" where
  "uq_record_type_name rts \<longleftrightarrow> distinct (map rt_name rts)"

definition ingest_error_pkey :: "ingest_error_row list \<Rightarrow> bool" where
  "ingest_error_pkey ies \<longleftrightarrow> distinct (map ie_raw_data_id ies)"

definition uq_processed_by_raw :: "processed_record_row list \<Rightarrow> bool" where
  "uq_processed_by_raw prs \<longleftrightarrow> distinct (map pr_raw_data_id prs)"

definition event_key :: "processed_record_row \<Rightarrow> int \<times> int \<times> timestamptz \<times> numeric" where
  "event_key pr = (pr_device_id pr, pr_type pr, pr_record_time pr, pr_value pr)"

definition uq_processed_event :: "processed_record_row list \<Rightarrow> bool" where
  "uq_processed_event prs \<longleftrightarrow> distinct (map event_key prs)"

text \<open>The state after the script has run on a fresh database: the four seeded types.\<close>

definition init_db :: database where
  "init_db =
     \<lparr>record_type =
        [\<lparr>rt_id = 1, rt_name = ''platform_extension_ticks'', rt_version_id = None\<rparr>,
         \<lparr>rt_id = 2, rt_name = ''platform_extension_mm'', rt_version_id = None\<rparr>,
         \<lparr>rt_id = 3, rt_name = ''battery_charge'', rt_version_id = None\<rparr>,
         \<lparr>rt_id = 4, rt_name = ''platform_height_mm'', rt_version_id = None\<rparr>],
      raw_record = [], ingest_error = [], processed_record = [],
      record_type_id_seq = 5, raw_record_id_seq = 1, processed_record_id_seq = 1\<rparr>"

section \<open>The engine's operators used by the views\<close>

subsection \<open>Three-valued logic\<close>

definition sql_gt :: "numeric option \<Rightarrow> numeric option \<Rightarrow> bool option" where
  "sql_gt a b =
     (case a of None \<Rightarrow> None | Some x \<Rightarrow> (case b of None \<Rightarrow> None | Some y \<Rightarrow> Some (x > y)))"

definition sql_lt :: "numeric option \<Rightarrow> numeric option \<Rightarrow> bool option" where
  "sql_lt a b =
     (case a of None \<Rightarrow> None | Some x \<Rightarrow> (case b of None \<Rightarrow> None | Some y \<Rightarrow> Some (x < y)))"

definition sql_eq :: "'a option \<Rightarrow> 'a option \<Rightarrow> bool option" where
  "sql_eq a b =
     (case a of None \<Rightarrow> None | Some x \<Rightarrow> (case b of None \<Rightarrow> None | Some y \<Rightarrow> Some (x = y)))"

definition sql_neq :: "'a option \<Rightarrow> 'a option \<Rightarrow> bool option" where
  "sql_neq a b =
     (case a of None \<Rightarrow> None | Some x \<Rightarrow> (case b of None \<Rightarrow> None | Some y \<Rightarrow> Some (x \<noteq> y)))"

definition sql_and :: "bool option \<Rightarrow> bool option \<Rightarrow> bool option" where
  "sql_and a b =
     (if a = Some False \<or> b = Some False then Some False
      else if a = Some True \<and> b = Some True then Some True
      else None)"

definition is_not_null :: "'a option \<Rightarrow> bool option" where
  "is_not_null a = Some (a \<noteq> None)"

text \<open>A \<open>WHERE\<close>, \<open>FILTER\<close> or \<open>CASE WHEN\<close> condition holds only when it is true, not NULL.\<close>

definition is_true :: "bool option \<Rightarrow> bool" where
  "is_true c \<longleftrightarrow> c = Some True"

subsection \<open>Joins, windows, errors\<close>

datatype sql_error =
    Invalid_Text_Representation string
  | Numeric_Value_Out_Of_Range

definition left_join :: "('a \<Rightarrow> 'b \<Rightarrow> bool) \<Rightarrow> 'a list \<Rightarrow> 'b list \<Rightarrow> ('a \<times> 'b option) list" where
  "left_join on xs ys =
     concat (map (\<lambda>x. case filter (on x) ys of
                        [] \<Rightarrow> [(x, None)]
                      | m # ms \<Rightarrow> map (\<lambda>y. (x, Some y)) (m # ms)) xs)"

text \<open>A query fails as a whole with the first error raised while its rows are computed.\<close>

fun collect :: "('e + 'a) list \<Rightarrow> 'e + 'a list" where
  "collect [] = Inr []"
| "collect (x # xs) =
     (case x of
        Inl e \<Rightarrow> Inl e
      | Inr v \<Rightarrow> (case collect xs of Inl e \<Rightarrow> Inl e | Inr vs \<Rightarrow> Inr (v # vs)))"

text \<open>\<open>LAG(e) OVER (...)\<close> on the rows of one ordered partition: NULL on the first row.\<close>

fun lag_from :: "'a option \<Rightarrow> 'a option list \<Rightarrow> 'a option list" where
  "lag_from prev [] = []"
| "lag_from prev (x # xs) = prev # lag_from x xs"

definition lag :: "'a option list \<Rightarrow> 'a option list" where
  "lag xs = lag_from None xs"

subsection \<open>Text of a JSONB value and the cast to integer\<close>

definition digit_char :: "nat \<Rightarrow> char" where
  "digit_char n = ''0123456789abcdef'' ! n"

fun show_nat :: "nat \<Rightarrow> string" where
  "show_nat n =
     (if n < 10 then [digit_char n]
      else show_nat (n div 10) @ [digit_char (n mod 10)])"

definition numeric_out :: "int \<Rightarrow> nat \<Rightarrow> string" where
  "numeric_out m s =
     (let ds = show_nat (nat \<bar>m\<bar>);
          padded = replicate (Suc s - length ds) (CHR ''0'') @ ds;
          n = length padded - s
      in (if m < 0 then ''-'' else []) @ take n padded @
         (if s = 0 then [] else CHR ''.'' # drop n padded))"

definition escape_char :: "char \<Rightarrow> string" where
  "escape_char c =
     (if c = CHR 0x22 then [CHR 0x5C, CHR 0x22]
      else if c = CHR 0x5C then [CHR 0x5C, CHR 0x5C]
      else if c = CHR 0x08 then [CHR 0x5C, CHR ''b'']
      else if c = CHR 0x0C then [CHR 0x5C, CHR ''f'']
      else if c = CHR 0x0A then [CHR 0x5C, CHR ''n'']
      else if c = CHR 0x0D then [CHR 0x5C, CHR ''r'']
      else if c = CHR 0x09 then [CHR 0x5C, CHR ''t'']
      else if (of_char c :: nat) < 32 then
        [CHR 0x5C, CHR ''u'', CHR ''0'', CHR ''0'',
         digit_char (of_char c div 16), digit_char (of_char c mod 16)]
      else [c])"

definition escape_json :: "string \<Rightarrow> string" where
  "escape_json s = CHR 0x22 # concat (map escape_char s) @ [CHR 0x22]"

fun join_with :: "string \<Rightarrow> string list \<Rightarrow> string" where
  "join_with sep [] = []"
| "join_with sep [x] = x"
| "join_with sep (x # y # ys) = x @ sep @ join_with sep (y # ys)"

primrec jsonb_out :: "json \<Rightarrow> string" where
  "jsonb_out JNull = ''null''"
| "jsonb_out (JBool b) = (if b then ''true'' else ''false'')"
| "jsonb_out (JNumber m s) = numeric_out m s"
| "jsonb_out (JString s) = escape_json s"
| "jsonb_out (JArray xs) = ''['' @ join_with '', '' (map jsonb_out xs) @ '']''"
| "jsonb_out (JObject kvs) =
     ''{'' @ join_with '', '' (map (\<lambda>kv. escape_json (fst kv) @ '': '' @ snd kv)
                                 (map (map_prod id jsonb_out) kvs)) @ ''}''"

text \<open>
  \<open>j ->> key\<close>: the member of an object as text. NULL when \<open>j\<close> is not an object, has
  no such member, or the member is the JSON null; a string is returned unquoted.
\<close>

definition jsonb_object_field_text :: "json \<Rightarrow> string \<Rightarrow> string option" where
  "jsonb_object_field_text j key =
     (case j of
        JObject kvs \<Rightarrow>
          (case map_of kvs key of
             None \<Rightarrow> None
           | Some JNull \<Rightarrow> None
           | Some (JString s) \<Rightarrow> Some s
           | Some v \<Rightarrow> Some (jsonb_out v))
      | _ \<Rightarrow> None)"

text \<open>
  \<open>text::int\<close>, the integer input of the engine (PostgreSQL 16): white space, a sign,
  then decimal digits or a \<open>0x\<close>, \<open>0o\<close>, \<open>0b\<close> prefix and digits of that base, with
  single underscores between digits, then white space. Anything else raises
  \<open>invalid input syntax for type integer\<close>; a value outside 32 bits raises
  \<open>value out of range\<close>.
\<close>

definition isspace :: "char \<Rightarrow> bool" where
  "isspace c \<longleftrightarrow> c \<in> set [CHR 0x20, CHR 0x09, CHR 0x0A, CHR 0x0B, CHR 0x0C, CHR 0x0D]"

definition digit_value :: "int \<Rightarrow> char \<Rightarrow> int option" where
  "digit_value base c =
     (let n = (of_char c :: int);
          d = (if 48 \<le> n \<and> n \<le> 57 then Some (n - 48)
               else if 97 \<le> n \<and> n \<le> 102 then Some (n - 87)
               else if 65 \<le> n \<and> n \<le> 70 then Some (n - 55)
               else None)
      in case d of None \<Rightarrow> None | Some k \<Rightarrow> if k < base then Some k else None)"

datatype scan_result = Scan_Invalid | Scan_Out_Of_Range | Scan_Ok int bool string

fun scan_digits :: "int \<Rightarrow> bool \<Rightarrow> int \<Rightarrow> bool \<Rightarrow> string \<Rightarrow> scan_result" where
  "scan_digits base us_first tmp moved [] = Scan_Ok tmp moved []"
| "scan_digits base us_first tmp moved (c # cs) =
     (case digit_value base c of
        Some d \<Rightarrow>
          if tmp > 2147483648 div base then Scan_Out_Of_Range
          else scan_digits base us_first (tmp * base + d) True cs
      | None \<Rightarrow>
          if c = CHR ''_'' then
            (if \<not> us_first \<and> \<not> moved then Scan_Invalid
             else (case cs of
                     [] \<Rightarrow> Scan_Invalid
                   | c' # _ \<Rightarrow>
                       if digit_value base c' = None then Scan_Invalid
                       else scan_digits base us_first tmp True cs))
          else Scan_Ok tmp moved (c # cs))"

definition scan_number :: "string \<Rightarrow> scan_result" where
  "scan_number p =
     (case p of
        c0 # c1 # r \<Rightarrow>
          if c0 = CHR ''0'' \<and> (c1 = CHR ''x'' \<or> c1 = CHR ''X'') then scan_digits 16 True 0 False r
          else if c0 = CHR ''0'' \<and> (c1 = CHR ''o'' \<or> c1 = CHR ''O'') then scan_digits 8 True 0 False r
          else if c0 = CHR ''0'' \<and> (c1 = CHR ''b'' \<or> c1 = CHR ''B'') then scan_digits 2 True 0 False r
          else scan_digits 10 False 0 False p
      | _ \<Rightarrow> scan_digits 10 False 0 False p)"

definition int4in :: "string \<Rightarrow> sql_error + int" where
  "int4in s =
     (let p = dropWhile isspace s;
          neg = (case p of [] \<Rightarrow> False | c # _ \<Rightarrow> c = CHR ''-'');
          p1 = (case p of [] \<Rightarrow> [] | c # r \<Rightarrow> if c = CHR ''-'' \<or> c = CHR ''+'' then r else p)
      in case scan_number p1 of
           Scan_Invalid \<Rightarrow> Inl (Invalid_Text_Representation s)
         | Scan_Out_Of_Range \<Rightarrow> Inl Numeric_Value_Out_Of_Range
         | Scan_Ok tmp moved rest \<Rightarrow>
             if \<not> moved \<or> dropWhile isspace rest \<noteq> [] then Inl (Invalid_Text_Representation s)
             else if neg then
               (if tmp > 2147483648 then Inl Numeric_Value_Out_Of_Range else Inr (- tmp))
             else if tmp > 2147483647 then Inl Numeric_Value_Out_Of_Range
             else Inr tmp)"

text \<open>The cast of a nullable text: NULL stays NULL.\<close>

definition cast_text_int :: "string option \<Rightarrow> sql_error + int option" where
  "cast_text_int t =
     (case t of
        None \<Rightarrow> Inr None
      | Some s \<Rightarrow> (case int4in s of Inl e \<Rightarrow> Inl e | Inr i \<Rightarrow> Inr (Some i)))"

section \<open>Views: ingest\_service/db/init/002\_views.sql\<close>

subsection \<open>ingest\_parse\<close>

text \<open>
  A row of the view. The \<open>device_id\<close> column is an expression with a cast, which the
  engine evaluates when a query reads the column; its value is the integer, NULL, or the
  error that the cast raises.
\<close>

record ingest_parse_row =
  ip_raw_data_id :: int
  ip_device_id :: "sql_error + int option"
  ip_parse_ok :: bool
  ip_error :: "string option"

text \<open>
  The select list on one joined row. \<open>COALESCE\<close> evaluates its second argument only
  when the first is NULL, that is when no processed row was joined.
\<close>

definition ingest_parse_select ::
  "(raw_record_row \<times> processed_record_row option) \<times> ingest_error_row option
     \<Rightarrow> ingest_parse_row" where
  "ingest_parse_select j =
     (let rr = fst (fst j); pr = snd (fst j); ie = snd j
      in \<lparr>ip_raw_data_id = rr_id rr,
          ip_device_id =
            (case pr of
               Some p \<Rightarrow> Inr (Some (pr_device_id p))
             | None \<Rightarrow> cast_text_int (jsonb_object_field_text (rr_raw_message rr) ''device_id'')),
          ip_parse_ok = (pr \<noteq> None),
          ip_error = map_option ie_error ie\<rparr>)"

definition ingest_parse_from ::
  "database \<Rightarrow> ((raw_record_row \<times> processed_record_row option) \<times> ingest_error_row option) list" where
  "ingest_parse_from db =
     left_join (\<lambda>j ie. ie_raw_data_id ie = rr_id (fst j))
       (left_join (\<lambda>rr pr. pr_raw_data_id pr = rr_id rr) (raw_record db) (processed_record db))
       (ingest_error db)"

definition ingest_parse :: "database \<Rightarrow> ingest_parse_row list" where
  "ingest_parse db = map ingest_parse_select (ingest_parse_from db)"

text \<open>
  \<open>SELECT * FROM ingest_parse\<close>: the rows with every column evaluated. The query fails
  as a whole with the first error that a cast raises.
\<close>

record ingest_parse_result =
  q_raw_data_id :: int
  q_device_id :: "int option"
  q_parse_ok :: bool
  q_error :: "string option"

definition select_ingest_parse :: "database \<Rightarrow> sql_error + ingest_parse_result list" where
  "select_ingest_parse db =
     collect (map (\<lambda>r. case ip_device_id r of
                          Inl e \<Rightarrow> Inl e
                        | Inr d \<Rightarrow> Inr \<lparr>q_raw_data_id = ip_raw_data_id r, q_device_id = d,
                                       q_parse_ok = ip_parse_ok r, q_error = ip_error r\<rparr>)
                  (ingest_parse db))"

subsection \<open>v\_platform\_extension\_mm\<close>

record extension_row =
  v_device_id :: int
  v_observed_at :: timestamptz
  v_extension_mm :: "numeric option"

text \<open>The \<open>CASE\<close> expression of the select list; without \<open>ELSE\<close> it yields NULL.\<close>

definition extension_case :: "string \<Rightarrow> numeric \<Rightarrow> numeric option" where
  "extension_case name v =
     (if name = ''platform_extension_mm'' then Some v
      else if name = ''platform_extension_ticks'' then Some (v / 20)
      else None)"

definition extension_select :: "processed_record_row \<Rightarrow> record_type_row \<Rightarrow> extension_row" where
  "extension_select pr rt =
     \<lparr>v_device_id = pr_device_id pr, v_observed_at = pr_record_time pr,
      v_extension_mm = extension_case (rt_name rt) (pr_value pr)\<rparr>"

text \<open>\<open>JOIN record_type rt ON rt.id = pr.type WHERE rt.name IN (...)\<close>\<close>

definition extension_join :: "processed_record_row \<Rightarrow> record_type_row \<Rightarrow> bool" where
  "extension_join pr rt \<longleftrightarrow>
     rt_id rt = pr_type pr \<and>
     rt_name rt \<in> set [''platform_extension_mm'', ''platform_extension_ticks'']"

definition v_platform_extension_mm :: "database \<Rightarrow> extension_row list" where
  "v_platform_extension_mm db =
     concat (map (\<lambda>pr. map (extension_select pr) (filter (extension_join pr) (record_type db)))
                 (processed_record db))"

subsection \<open>metric\_avg\_extension\_mm\<close>

text \<open>
  \<open>GROUP BY device_id\<close>: one group per distinct value. The order of the groups is not
  fixed by the query; the model lists them in ascending order.
\<close>

definition group_keys :: "int list \<Rightarrow> int list" where
  "group_keys ks = sort (remdups ks)"

text \<open>\<open>AVG\<close> skips NULL inputs and is NULL when none is left.\<close>

definition sql_avg :: "numeric option list \<Rightarrow> numeric option" where
  "sql_avg xs =
     (let vs = List.map_filter id xs
      in if vs = [] then None else Some (sum_list vs / of_nat (length vs)))"

text \<open>
  \<open>::numeric(10,3)\<close> rounds to three decimals, ties away from zero, and raises
  when more than seven digits remain before the decimal point.
\<close>

definition numeric_10_3 :: "numeric option \<Rightarrow> sql_error + numeric option" where
  "numeric_10_3 x =
     (case x of
        None \<Rightarrow> Inr None
      | Some v \<Rightarrow>
          (let r = (if v < 0 then - of_int \<lfloor>\<bar>v\<bar> * 1000 + 1 / 2\<rfloor> else of_int \<lfloor>\<bar>v\<bar> * 1000 + 1 / 2\<rfloor>) / 1000
           in if \<bar>r\<bar> \<ge> 10000000 then Inl Numeric_Value_Out_Of_Range else Inr (Some r)))"

record avg_extension_row =
  a_device_id :: int
  a_avg_extension_mm :: "numeric option"

definition metric_avg_extension_mm :: "database \<Rightarrow> sql_error + avg_extension_row list" where
  "metric_avg_extension_mm db =
     (let v = v_platform_extension_mm db
      in collect (map (\<lambda>d.
           case numeric_10_3 (sql_avg (map v_extension_mm (filter (\<lambda>r. v_device_id r = d) v))) of
             Inl e \<Rightarrow> Inl e
           | Inr a \<Rightarrow> Inr \<lparr>a_device_id = d, a_avg_extension_mm = a\<rparr>)
         (group_keys (map v_device_id v))))"

subsection \<open>metric\_extension\_vs\_retraction\<close>

text \<open>
  \<open>OVER (PARTITION BY device_id ORDER BY observed_at)\<close>: the rows of each device, sorted by
  \<open>observed_at\<close>. Rows with equal \<open>observed_at\<close> keep the order in which the view
  produced them (a stable sort).
\<close>

definition window_partition :: "extension_row list \<Rightarrow> int \<Rightarrow> extension_row list" where
  "window_partition rows d = sort_key v_observed_at (filter (\<lambda>r. v_device_id r = d) rows)"

definition window_partitions :: "extension_row list \<Rightarrow> extension_row list list" where
  "window_partitions rows = map (window_partition rows) (group_keys (map v_device_id rows))"

record series_row =
  s_device_id :: int
  s_observed_at :: timestamptz
  s_extension_mm :: "numeric option"
  s_prev_mm :: "numeric option"

definition series_select :: "extension_row \<Rightarrow> numeric option \<Rightarrow> series_row" where
  "series_select r prev =
     \<lparr>s_device_id = v_device_id r, s_observed_at = v_observed_at r,
      s_extension_mm = v_extension_mm r, s_prev_mm = prev\<rparr>"

definition series :: "database \<Rightarrow> series_row list" where
  "series db =
     concat (map (\<lambda>part. map2 series_select part (lag (map v_extension_mm part)))
                 (window_partitions (v_platform_extension_mm db)))"

record extension_vs_retraction_row =
  m_device_id :: int
  m_extensions :: int
  m_retractions :: int

definition is_extension :: "series_row \<Rightarrow> bool" where
  "is_extension r \<longleftrightarrow>
     is_true (sql_and (is_not_null (s_prev_mm r)) (sql_gt (s_extension_mm r) (s_prev_mm r)))"

definition is_retraction :: "series_row \<Rightarrow> bool" where
  "is_retraction r \<longleftrightarrow>
     is_true (sql_and (is_not_null (s_prev_mm r)) (sql_lt (s_extension_mm r) (s_prev_mm r)))"

definition metric_extension_vs_retraction :: "database \<Rightarrow> extension_vs_retraction_row list" where
  "metric_extension_vs_retraction db =
     (let s = series db
      in map (\<lambda>d. let g = filter (\<lambda>r. s_device_id r = d) s
                  in \<lparr>m_device_id = d,
                      m_extensions = sum_list (map (\<lambda>r. if is_extension r then 1 else 0) g),
                      m_retractions = sum_list (map (\<lambda>r. if is_retraction r then 1 else 0) g)\<rparr>)
             (group_keys (map s_device_id s)))"

section \<open>Example queries: analytics\_service/src/pages/api/examples/run.ts\<close>

subsection \<open>counts\_by\_type\<close>

definition extension_facts :: "database \<Rightarrow> (processed_record_row \<times> record_type_row) list" where
  "extension_facts db =
     concat (map (\<lambda>pr. map (\<lambda>rt. (pr, rt)) (filter (extension_join pr) (record_type db)))
                 (processed_record db))"

record counts_by_type_row =
  c_type :: string
  c_rows :: int

text \<open>
  \<open>GROUP BY 1 ORDER BY 1\<close>. Only the two names of the \<open>WHERE\<close> clause can occur, and
  \<open>platform_extension_mm\<close> sorts before \<open>platform_extension_ticks\<close>.
\<close>

definition counts_by_type :: "database \<Rightarrow> counts_by_type_row list" where
  "counts_by_type db =
     (let j = extension_facts db
      in map (\<lambda>n. \<lparr>c_type = n, c_rows = int (length (filter (\<lambda>x. rt_name (snd x) = n) j))\<rparr>)
             (sort (remdups (map (\<lambda>x. rt_name (snd x)) j))))"

subsection \<open>devices\_both\_formats\<close>

record devices_both_formats_row =
  b_device_id :: int
  b_new_mm :: int
  b_legacy_ticks :: int

definition devices_both_formats :: "database \<Rightarrow> devices_both_formats_row list" where
  "devices_both_formats db =
     (let j = extension_facts db
      in filter (\<lambda>r. b_new_mm r > 0 \<and> b_legacy_ticks r > 0)
           (map (\<lambda>d. let g = filter (\<lambda>x. pr_device_id (fst x) = d) j
                     in \<lparr>b_device_id = d,
                         b_new_mm = int (length (filter (\<lambda>x. rt_name (snd x) = ''platform_extension_mm'') g)),
                         b_legacy_ticks =
                           int (length (filter (\<lambda>x. rt_name (snd x) = ''platform_extension_ticks'') g))\<rparr>)
                (group_keys (map (\<lambda>x. pr_device_id (fst x)) j))))"

subsection \<open>unified\_recent\<close>

record unified_recent_row =
  u_device_id :: int
  u_record_time :: timestamptz
  u_source_type :: string
  u_source_value :: numeric
  u_extension_mm :: "numeric option"

definition unified_recent_select :: "processed_record_row \<times> record_type_row \<Rightarrow> unified_recent_row" where
  "unified_recent_select x =
     \<lparr>u_device_id = pr_device_id (fst x), u_record_time = pr_record_time (fst x),
      u_source_type = rt_name (snd x), u_source_value = pr_value (fst x),
      u_extension_mm = extension_case (rt_name (snd x)) (pr_value (fst x))\<rparr>"

text \<open>\<open>ORDER BY pr.record_time DESC LIMIT 50\<close>\<close>

definition unified_recent :: "database \<Rightarrow> unified_recent_row list" where
  "unified_recent db =
     take 50 (sort_key (\<lambda>r. - u_record_time r) (map unified_recent_select (extension_facts db)))"

subsection \<open>side\_switches\<close>

definition side_case :: "numeric option \<Rightarrow> string" where
  "side_case x =
     (if is_true (sql_gt x (Some 0)) then ''right''
      else if is_true (sql_lt x (Some 0)) then ''left''
      else ''center'')"

record side_row =
  sw_device_id :: int
  sw_observed_at :: timestamptz
  sw_extension_mm :: "numeric option"
  sw_side :: string
  sw_prev_side :: "string option"

definition side_select :: "extension_row \<Rightarrow> string option \<Rightarrow> side_row" where
  "side_select r prev =
     \<lparr>sw_device_id = v_device_id r, sw_observed_at = v_observed_at r,
      sw_extension_mm = v_extension_mm r, sw_side = side_case (v_extension_mm r),
      sw_prev_side = prev\<rparr>"

definition side_series :: "database \<Rightarrow> side_row list" where
  "side_series db =
     concat (map (\<lambda>part. map2 side_select part
                           (lag (map (\<lambda>r. Some (side_case (v_extension_mm r))) part)))
                 (window_partitions (v_platform_extension_mm db)))"

text \<open>\<open>WHERE prev_side IS NOT NULL AND side <> 'center'\<close>\<close>

definition side_where :: "side_row \<Rightarrow> bool" where
  "side_where r \<longleftrightarrow>
     is_true (sql_and (is_not_null (sw_prev_side r)) (sql_neq (Some (sw_side r)) (Some ''center'')))"

definition is_left_to_right :: "side_row \<Rightarrow> bool" where
  "is_left_to_right r \<longleftrightarrow>
     is_true (sql_and (sql_eq (sw_prev_side r) (Some ''left'')) (sql_eq (Some (sw_side r)) (Some ''right'')))"

definition is_right_to_left :: "side_row \<Rightarrow> bool" where
  "is_right_to_left r \<longleftrightarrow>
     is_true (sql_and (sql_eq (sw_prev_side r) (Some ''right'')) (sql_eq (Some (sw_side r)) (Some ''left'')))"

record side_switches_row =
  x_device_id :: int
  x_left_to_right :: int
  x_right_to_left :: int

definition side_switches :: "database \<Rightarrow> side_switches_row list" where
  "side_switches db =
     (let s = filter side_where (side_series db)
      in map (\<lambda>d. let g = filter (\<lambda>r. sw_device_id r = d) s
                  in \<lparr>x_device_id = d,
                      x_left_to_right = int (length (filter is_left_to_right g)),
                      x_right_to_left = int (length (filter is_right_to_left g))\<rparr>)
             (group_keys (map sw_device_id s)))"

subsection \<open>The request handlers\<close>

text \<open>
  \<open>req.query.key\<close> is absent, one string, or an array of strings;
  \<open>String(req.query.key || '')\<close> turns it into the key that is looked up.
\<close>

datatype query_param = Absent | Single string | Multiple "string list"

definition query_key :: "query_param \<Rightarrow> string" where
  "query_key q =
     (case q of Absent \<Rightarrow> [] | Single s \<Rightarrow> s | Multiple ss \<Rightarrow> join_with '','' ss)"

datatype query_rows =
    Counts_By_Type "counts_by_type_row list"
  | Devices_Both_Formats "devices_both_formats_row list"
  | Unified_Recent "unified_recent_row list"
  | Side_Switches "side_switches_row list"
  | Avg_Extension_Mm "avg_extension_row list"

datatype response = Status_200 query_rows | Status_400 | Status_500

text \<open>
  \<open>QUERY_MAP\<close> is an object literal, so a lookup also finds the properties it inherits;
  those are not SQL text, \<open>pool.query\<close> rejects them and the handler answers 500.
\<close>

definition inherited_keys :: "string list" where
  "inherited_keys =
     [''constructor'', ''hasOwnProperty'', ''isPrototypeOf'', ''propertyIsEnumerable'',
      ''toLocaleString'', ''toString'', ''valueOf'', ''__proto__'', ''__defineGetter__'',
      ''__defineSetter__'', ''__lookupGetter__'', ''__lookupSetter__'']"

text \<open>
  The handler of \<open>run.ts\<close>, on a database state: every statement of \<open>QUERY_MAP\<close> is a
  \<open>SELECT\<close>, so the state after the request is the state before it. The response
  carries the rows; the SQL text that the handler sends along with them is left out.
\<close>

definition handler :: "query_param \<Rightarrow> database \<Rightarrow> database \<times> response" where
  "handler q db =
     (let key = query_key q
      in if key = ''counts_by_type'' then (db, Status_200 (Counts_By_Type (counts_by_type db)))
         else if key = ''devices_both_formats'' then
           (db, Status_200 (Devices_Both_Formats (devices_both_formats db)))
         else if key = ''unified_recent'' then (db, Status_200 (Unified_Recent (unified_recent db)))
         else if key = ''side_switches'' then (db, Status_200 (Side_Switches (side_switches db)))
         else if key \<in> set inherited_keys then (db, Status_500)
         else (db, Status_400))"

text \<open>
  The handler of \<open>metrics/avg-extension-mm.ts\<close>:
  \<open>SELECT * FROM metric_avg_extension_mm ORDER BY device_id\<close>.
\<close>

definition avg_extension_mm_handler :: "database \<Rightarrow> database \<times> response" where
  "avg_extension_mm_handler db =
     (case metric_avg_extension_mm db of
        Inl e \<Rightarrow> (db, Status_500)
      | Inr rows \<Rightarrow> (db, Status_200 (Avg_Extension_Mm (sort_key a_device_id rows))))"

section \<open>The write path\<close>

text \<open>
  Modelled from the spec: the ingestion write path (the ingest service's routes, services
  and SQL helpers are not among the sources; only the schema they write to is). The
  model follows sections 4.3, 4.4 and 6 of the specification and the ingestion flow of
  the design document: the payload is stored in \<open>raw_record\<close> first; a payload rejected
  by the validator or the resolver gets an \<open>ingest_error\<close> row; an accepted event has its
  record type resolved by name (created on first sight) and is inserted into
  \<open>processed_record\<close> with \<open>ON CONFLICT DO NOTHING\<close>, so that an insert that would break
  one of the two unique indexes is a no-op reported as a duplicate, not an error.
  The verdict of the validator and the device resolver is an input of the model;
  storage failures are not modelled.
\<close>

text \<open>
  Modelled from the spec: the verdict of the Schema Validator and the Device Resolver
  (sections 4.1, 4.2) on one payload: a rejection with its reason, or an event accepted
  for a resolved device, with its type name, event time and value.
\<close>

datatype upstream = Rejected string | Accepted int string timestamptz numeric

text \<open>Modelled from the spec: the result of the Idempotent Writer (section 4.3).\<close>

datatype write_result = Created int | Duplicate

text \<open>Modelled from the spec: the output per input element (section 6).\<close>

record ingest_response =
  raw_id :: int
  processed_id :: "int option"
  status :: string

text \<open>
  Modelled from the spec: the append to the Raw Ledger (section 3, RawRecord), with the
  next value of the \<open>BIGSERIAL\<close> key.
\<close>

definition insert_raw :: "database \<Rightarrow> json \<Rightarrow> timestamptz \<Rightarrow> database \<times> int" where
  "insert_raw db payload now =
     (let i = raw_record_id_seq db
      in (db\<lparr>raw_record := raw_record db @
                  [\<lparr>rr_id = i, rr_raw_message = payload, rr_arrival_time = now\<rparr>],
             raw_record_id_seq := i + 1\<rparr>, i))"

text \<open>
  Modelled from the spec: the RecordType of a name, inserted on the first observation of
  the name and never updated (section 3, RecordType; section 4.3).
\<close>

definition resolve_record_type :: "database \<Rightarrow> string \<Rightarrow> database \<times> int" where
  "resolve_record_type db name =
     (case find (\<lambda>rt. rt_name rt = name) (record_type db) of
        Some rt \<Rightarrow> (db, rt_id rt)
      | None \<Rightarrow>
          (let i = record_type_id_seq db
           in (db\<lparr>record_type := record_type db @
                       [\<lparr>rt_id = i, rt_name = name, rt_version_id = None\<rparr>],
                  record_type_id_seq := i + 1\<rparr>, i)))"

text \<open>
  Modelled from the spec: the Idempotent Writer (section 4.3). The key is drawn from
  the sequence before the unique indexes are checked, so a suppressed insert uses up a
  value.
\<close>

definition insert_processed ::
  "database \<Rightarrow> int \<Rightarrow> int \<Rightarrow> timestamptz \<Rightarrow> int \<Rightarrow> numeric \<Rightarrow> database \<times> write_result" where
  "insert_processed db dev raw t ty v =
     (let i = processed_record_id_seq db;
          row = \<lparr>pr_id = i, pr_device_id = dev, pr_raw_data_id = raw, pr_record_time = t,
                 pr_type = ty, pr_value = v\<rparr>;
          db' = db\<lparr>processed_record_id_seq := i + 1\<rparr>
      in if list_ex (\<lambda>p. pr_raw_data_id p = raw \<or> event_key p = event_key row) (processed_record db)
         then (db', Duplicate)
         else (db'\<lparr>processed_record := processed_record db @ [row]\<rparr>, Created i))"

text \<open>
  Modelled from the spec: the Error Quarantine (section 4.4), an upsert keyed by the raw
  record that overwrites an earlier reason.
\<close>

definition upsert_ingest_error :: "database \<Rightarrow> int \<Rightarrow> string \<Rightarrow> timestamptz \<Rightarrow> database" where
  "upsert_ingest_error db raw reason now =
     (if list_ex (\<lambda>e. ie_raw_data_id e = raw) (ingest_error db)
      then db\<lparr>ingest_error :=
                map (\<lambda>e. if ie_raw_data_id e = raw then e\<lparr>ie_error := reason\<rparr> else e) (ingest_error db)\<rparr>
      else db\<lparr>ingest_error := ingest_error db @
                  [\<lparr>ie_raw_data_id = raw, ie_error = reason, ie_created_at = now\<rparr>]\<rparr>)"

text \<open>
  Modelled from the spec: the processing of one payload (section 2, data flow; section 6),
  given the payload, the time of arrival and the verdict of validator and resolver; and
  the processing of a sequence of payloads, one after the other.
\<close>

type_synonym submission = "json \<times> timestamptz \<times> upstream"

definition process_one :: "database \<Rightarrow> submission \<Rightarrow> database \<times> ingest_response" where
  "process_one db x =
     (let payload = fst x; now = fst (snd x);
          db1 = fst (insert_raw db payload now); rid = snd (insert_raw db payload now)
      in case snd (snd x) of
           Rejected reason \<Rightarrow>
             (upsert_ingest_error db1 rid reason now,
              \<lparr>raw_id = rid, processed_id = None, status = ''invalid''\<rparr>)
         | Accepted dev name t v \<Rightarrow>
             (let db2 = fst (resolve_record_type db1 name); ty = snd (resolve_record_type db1 name);
                  db3 = fst (insert_processed db2 dev rid t ty v);
                  res = snd (insert_processed db2 dev rid t ty v)
              in (db3, \<lparr>raw_id = rid,
                        processed_id = (case res of Created i \<Rightarrow> Some i | Duplicate \<Rightarrow> None),
                        status = ''ok''\<rparr>)))"

definition run :: "database \<Rightarrow> submission list \<Rightarrow> database" where
  "run db xs = foldl (\<lambda>d x. fst (process_one d x)) db xs"

section \<open>The specification's wording\<close>

text \<open>The name of the record type that a fact's \<open>type\<close> column references.\<close>

definition type_name :: "database \<Rightarrow> int \<Rightarrow> string option" where
  "type_name db t = map_option rt_name (find (\<lambda>rt. rt_id rt = t) (record_type db))"

text \<open>
  Section 4.5: the reading that the Unification View reports for one fact: the stored
  value for the millimeter type, the value divided by 20 for the legacy ticks type, and
  no reading for any other type.
\<close>

definition unified_reading :: "database \<Rightarrow> processed_record_row \<Rightarrow> extension_row option" where
  "unified_reading db pr =
     (case type_name db (pr_type pr) of
        None \<Rightarrow> None
      | Some n \<Rightarrow>
          if n = ''platform_extension_mm'' then
            Some \<lparr>v_device_id = pr_device_id pr, v_observed_at = pr_record_time pr,
                  v_extension_mm = Some (pr_value pr)\<rparr>
          else if n = ''platform_extension_ticks'' then
            Some \<lparr>v_device_id = pr_device_id pr, v_observed_at = pr_record_time pr,
                  v_extension_mm = Some (pr_value pr / 20)\<rparr>
          else None)"

text \<open>
  Section 4.6: the transitions of a series are its pairs of consecutive readings,
  (previous, current); the first reading is the current one of no pair.
\<close>

definition transitions :: "'a list \<Rightarrow> ('a \<times> 'a) list" where
  "transitions xs = zip xs (tl xs)"

definition count_transitions :: "('a \<Rightarrow> 'a \<Rightarrow> bool) \<Rightarrow> 'a list \<Rightarrow> nat" where
  "count_transitions P xs = length (filter (\<lambda>pc. P (fst pc) (snd pc)) (transitions xs))"

definition classify :: "numeric \<Rightarrow> string" where
  "classify x = (if x < 0 then ''left'' else if x > 0 then ''right'' else ''center'')"

text \<open>The unified readings of one device, ordered by \<open>observed_at\<close>.\<close>

definition device_readings :: "database \<Rightarrow> int \<Rightarrow> extension_row list" where
  "device_readings db d =
     sort_key v_observed_at (filter (\<lambda>r. v_device_id r = d) (v_platform_extension_mm db))"

text \<open>The rows of the \<open>series\<close> of \<open>side_switches\<close> for one device, before the \<open>WHERE\<close>.\<close>

definition side_rows :: "database \<Rightarrow> int \<Rightarrow> side_row list" where
  "side_rows db d =
     map2 side_select (device_readings db d)
       (lag (map (\<lambda>r. Some (side_case (v_extension_mm r))) (device_readings db d)))"

text \<open>Section 3, invariant 1, and section 8, quarantine completeness.\<close>

definition facts_of :: "database \<Rightarrow> int \<Rightarrow> processed_record_row list" where
  "facts_of db rid = filter (\<lambda>p. pr_raw_data_id p = rid) (processed_record db)"

definition errors_of :: "database \<Rightarrow> int \<Rightarrow> ingest_error_row list" where
  "errors_of db rid = filter (\<lambda>e. ie_raw_data_id e = rid) (ingest_error db)"

definition quarantine_complete :: "database \<Rightarrow> bool" where
  "quarantine_complete db =
     list_all (\<lambda>rr. (length (facts_of db (rr_id rr)) = 1 \<and> errors_of db (rr_id rr) = []) \<or>
                    (facts_of db (rr_id rr) = [] \<and> length (errors_of db (rr_id rr)) = 1))
              (raw_record db)"

text \<open>A fact that stores the logical event (device, type name, event time, value).\<close>

definition stores_event ::
  "database \<Rightarrow> int \<Rightarrow> string \<Rightarrow> timestamptz \<Rightarrow> numeric \<Rightarrow> processed_record_row \<Rightarrow> bool" where
  "stores_event db dev name t v p \<longleftrightarrow>
     pr_device_id p = dev \<and> type_name db (pr_type p) = Some name \<and>
     pr_record_time p = t \<and> pr_value p = v"

section \<open>Example states\<close>

definition telemetry :: "int \<Rightarrow> string \<Rightarrow> int \<Rightarrow> string \<Rightarrow> json" where
  "telemetry dev name v ts =
     JObject [(''device_id'', JNumber dev 0), (''event_type'', JString name),
              (''value'', JNumber v 0), (''timestamp'', JString ts)]"

text \<open>Scenario A of the specification: one legacy reading of 100 ticks from device 42.\<close>

definition scenario_a :: database where
  "scenario_a =
     run init_db
       [(JObject [(''device_id'', JNumber 42 0), (''event_type'', JString ''platform_extension_ticks''),
                  (''value'', JNumber 100 0), (''timestamp'', JString ''2024-01-01T00:00:00Z'')],
         1704067200000001, Accepted 42 ''platform_extension_ticks'' 1704067200000000 100)]"

text \<open>
  A mixed rollout: device 42 reports in both formats (5, 5, -3, 3, 0, -1, 2 millimeters
  in the order of their event times), device 7 reports battery charge only, device 9
  reports one reading.
\<close>

definition mixed_rollout :: database where
  "mixed_rollout =
     run init_db
       [(telemetry 42 ''platform_extension_ticks'' 100 ''t10'', 11, Accepted 42 ''platform_extension_ticks'' 10 100),
        (telemetry 42 ''platform_extension_mm'' 5 ''t20'', 21, Accepted 42 ''platform_extension_mm'' 20 5),
        (telemetry 42 ''platform_extension_mm'' (- 3) ''t30'', 31, Accepted 42 ''platform_extension_mm'' 30 (- 3)),
        (telemetry 7 ''battery_charge'' 50 ''t35'', 36, Accepted 7 ''battery_charge'' 35 50),
        (telemetry 42 ''platform_extension_ticks'' 60 ''t40'', 41, Accepted 42 ''platform_extension_ticks'' 40 60),
        (telemetry 42 ''platform_extension_mm'' 0 ''t50'', 51, Accepted 42 ''platform_extension_mm'' 50 0),
        (telemetry 9 ''platform_extension_mm'' 4 ''t55'', 56, Accepted 9 ''platform_extension_mm'' 55 4),
        (telemetry 42 ''platform_extension_mm'' (- 1) ''t60'', 61, Accepted 42 ''platform_extension_mm'' 60 (- 1)),
        (telemetry 42 ''platform_extension_mm'' 2 ''t70'', 71, Accepted 42 ''platform_extension_mm'' 70 2)]"

text \<open>
  A replayed event: a reading, a payload without timestamp that the validator rejects,
  and the first reading delivered again.
\<close>

definition replay :: "submission list" where
  "replay =
     [(telemetry 42 ''platform_extension_ticks'' 100 ''t10'', 11,
       Accepted 42 ''platform_extension_ticks'' 10 100),
      (JObject [(''device_id'', JNumber 42 0), (''event_type'', JString ''platform_extension_mm''),
                (''value'', JNumber 5 0)], 21, Rejected ''timestamp: field required''),
      (telemetry 42 ''platform_extension_ticks'' 100 ''t10'', 31,
       Accepted 42 ''platform_extension_ticks'' 10 100)]"

definition replayed :: database where
  "replayed = run init_db replay"

text \<open>
  A quarantined payload whose \<open>device_id\<close> is not a number: the payload is in
  \<open>raw_record\<close>, its rejection in \<open>ingest_error\<close>, and no fact references it.
\<close>

definition malformed_device :: database where
  "malformed_device =
     init_db
       \<lparr>raw_record :=
          [\<lparr>rr_id = 1,
            rr_raw_message =
              JObject [(''device_id'', JString ''abc''),
                       (''event_type'', JString ''platform_extension_mm''),
                       (''value'', JNumber 5 0),
                       (''timestamp'', JString ''2024-01-01T00:00:00Z'')],
            rr_arrival_time = 11\<rparr>],
        ingest_error :=
          [\<lparr>ie_raw_data_id = 1, ie_error = ''device_id: not a valid device'', ie_created_at = 11\<rparr>],
        raw_record_id_seq := 2\<rparr>"

section \<open>Invariants of the write path\<close>

text \<open>
  What every state reached through the write path satisfies: the keys and unique
  indexes of the schema hold, and every stored reference is below the next value of its
  sequence.
\<close>

definition ledger_inv :: "database \<Rightarrow> bool" where
  "ledger_inv db \<longleftrightarrow>
     (\<forall>p\<in>set (processed_record db). pr_raw_data_id p < raw_record_id_seq db) \<and>
     (\<forall>e\<in>set (ingest_error db). ie_raw_data_id e < raw_record_id_seq db) \<and>
     uq_processed_by_raw (processed_record db) \<and>
     uq_processed_event (processed_record db) \<and>
     ingest_error_pkey (ingest_error db) \<and>
     record_type_pkey (record_type db) \<and>
     uq_record_type_name (record_type db) \<and>
     (\<forall>rt\<in>set (record_type db). rt_id rt < record_type_id_seq db)"

text \<open>
  The state of one submission after processing: a rejected payload has no fact and
  exactly one error, with the reason given; an accepted event has no error and is stored
  by a fact, which references this raw record or, for a duplicate, another one (an
  earlier one, as \<open>run\<close> processes the submissions one after the other).
\<close>

definition settled :: "database \<Rightarrow> int \<Rightarrow> upstream \<Rightarrow> bool" where
  "settled db rid up =
     (case up of
        Rejected reason \<Rightarrow>
          facts_of db rid = [] \<and> map ie_error (errors_of db rid) = [reason]
      | Accepted dev name t v \<Rightarrow>
          errors_of db rid = [] \<and>
          list_ex (\<lambda>p. stores_event db dev name t v p \<and> pr_raw_data_id p \<le> rid \<and>
                       facts_of db rid = (if pr_raw_data_id p = rid then [p] else []))
                  (processed_record db))"

section \<open>Evaluating the example states\<close>

lemmas run_simps =
  run_def process_one_def insert_raw_def init_db_def resolve_record_type_def
  insert_processed_def upsert_ingest_error_def event_key_def Let_def telemetry_def

lemma scenario_a_processed:
  "processed_record scenario_a =
     [\<lparr>pr_id = 1, pr_device_id = 42, pr_raw_data_id = 1,
       pr_record_time = 1704067200000000, pr_type = 1, pr_value = 100\<rparr>]"
  by (simp add: scenario_a_def run_simps)

lemma scenario_a_types: "record_type scenario_a = record_type init_db"
  by (simp add: scenario_a_def run_simps)

lemma mixed_rollout_processed:
  "processed_record mixed_rollout =
     [\<lparr>pr_id = 1, pr_device_id = 42, pr_raw_data_id = 1, pr_record_time = 10, pr_type = 1, pr_value = 100\<rparr>,
      \<lparr>pr_id = 2, pr_device_id = 42, pr_raw_data_id = 2, pr_record_time = 20, pr_type = 2, pr_value = 5\<rparr>,
      \<lparr>pr_id = 3, pr_device_id = 42, pr_raw_data_id = 3, pr_record_time = 30, pr_type = 2, pr_value = - 3\<rparr>,
      \<lparr>pr_id = 4, pr_device_id = 7, pr_raw_data_id = 4, pr_record_time = 35, pr_type = 3, pr_value = 50\<rparr>,
      \<lparr>pr_id = 5, pr_device_id = 42, pr_raw_data_id = 5, pr_record_time = 40, pr_type = 1, pr_value = 60\<rparr>,
      \<lparr>pr_id = 6, pr_device_id = 42, pr_raw_data_id = 6, pr_record_time = 50, pr_type = 2, pr_value = 0\<rparr>,
      \<lparr>pr_id = 7, pr_device_id = 9, pr_raw_data_id = 7, pr_record_time = 55, pr_type = 2, pr_value = 4\<rparr>,
      \<lparr>pr_id = 8, pr_device_id = 42, pr_raw_data_id = 8, pr_record_time = 60, pr_type = 2, pr_value = - 1\<rparr>,
      \<lparr>pr_id = 9, pr_device_id = 42, pr_raw_data_id = 9, pr_record_time = 70, pr_type = 2, pr_value = 2\<rparr>]"
  by (simp add: mixed_rollout_def run_simps)

lemma mixed_rollout_types: "record_type mixed_rollout = record_type init_db"
  by (simp add: mixed_rollout_def run_simps)

lemma mixed_rollout_view:
  "v_platform_extension_mm mixed_rollout =
     [\<lparr>v_device_id = 42, v_observed_at = 10, v_extension_mm = Some 5\<rparr>,
      \<lparr>v_device_id = 42, v_observed_at = 20, v_extension_mm = Some 5\<rparr>,
      \<lparr>v_device_id = 42, v_observed_at = 30, v_extension_mm = Some (- 3)\<rparr>,
      \<lparr>v_device_id = 42, v_observed_at = 40, v_extension_mm = Some 3\<rparr>,
      \<lparr>v_device_id = 42, v_observed_at = 50, v_extension_mm = Some 0\<rparr>,
      \<lparr>v_device_id = 9, v_observed_at = 55, v_extension_mm = Some 4\<rparr>,
      \<lparr>v_device_id = 42, v_observed_at = 60, v_extension_mm = Some (- 1)\<rparr>,
      \<lparr>v_device_id = 42, v_observed_at = 70, v_extension_mm = Some 2\<rparr>]"
  by (simp add: v_platform_extension_mm_def mixed_rollout_processed mixed_rollout_types init_db_def
      extension_join_def extension_select_def extension_case_def)

section \<open>The Unification View\<close>

lemma filter_by_key:
  "distinct (map k xs) \<Longrightarrow>
   filter (\<lambda>x. k x = t \<and> P x) xs =
     (case find (\<lambda>x. k x = t) xs of None \<Rightarrow> [] | Some x \<Rightarrow> if P x then [x] else [])"
proof (induction xs)
  case Nil
  then show ?case by simp
next
  case (Cons x xs)
  show ?case
  proof (cases "k x = t")
    case True
    with Cons.prems have "\<forall>y\<in>set xs. k y \<noteq> t" by (force simp: image_iff)
    then have "filter (\<lambda>x. k x = t \<and> P x) xs = []" by (auto simp: filter_empty_conv)
    with True show ?thesis by simp
  next
    case False
    with Cons show ?thesis by simp
  qed
qed

lemma concat_map_option:
  "(\<And>x. x \<in> set xs \<Longrightarrow> f x = (case g x of None \<Rightarrow> [] | Some y \<Rightarrow> [y])) \<Longrightarrow>
   concat (map f xs) = List.map_filter g xs"
  by (induction xs) (auto simp: List.map_filter_simps split: option.splits)

lemma extension_rows_of_fact:
  assumes "record_type_pkey (record_type db)"
  shows "map (extension_select pr) (filter (extension_join pr) (record_type db)) =
         (case unified_reading db pr of None \<Rightarrow> [] | Some r \<Rightarrow> [r])"
proof -
  have "filter (extension_join pr) (record_type db) =
        filter (\<lambda>rt. rt_id rt = pr_type pr \<and>
                  rt_name rt \<in> set [''platform_extension_mm'', ''platform_extension_ticks''])
               (record_type db)"
    by (rule filter_cong) (simp_all add: extension_join_def)
  also have "\<dots> = (case find (\<lambda>rt. rt_id rt = pr_type pr) (record_type db) of
                     None \<Rightarrow> []
                   | Some rt \<Rightarrow>
                       if rt_name rt \<in> set [''platform_extension_mm'', ''platform_extension_ticks'']
                       then [rt] else [])"
    using assms unfolding record_type_pkey_def by (rule filter_by_key)
  finally show ?thesis
    by (auto simp: unified_reading_def type_name_def extension_select_def extension_case_def
             split: option.splits)
qed

lemma view_eq_readings:
  assumes "record_type_pkey (record_type db)"
  shows "v_platform_extension_mm db = List.map_filter (unified_reading db) (processed_record db)"
  unfolding v_platform_extension_mm_def
  by (rule concat_map_option) (rule extension_rows_of_fact [OF assms])

lemma view_row_cases:
  assumes "r \<in> set (v_platform_extension_mm db)"
  shows "\<exists>pr\<in>set (processed_record db). \<exists>rt\<in>set (record_type db).
           extension_join pr rt \<and> r = extension_select pr rt"
  using assms by (auto simp: v_platform_extension_mm_def)

lemma view_row_not_null:
  assumes "r \<in> set (v_platform_extension_mm db)"
  shows "v_extension_mm r \<noteq> None"
proof -
  from view_row_cases [OF assms] obtain pr rt
    where j: "extension_join pr rt" and r: "r = extension_select pr rt" by blast
  from j have "rt_name rt = ''platform_extension_mm'' \<or> rt_name rt = ''platform_extension_ticks''"
    by (simp add: extension_join_def)
  then show ?thesis
    by (auto simp: r extension_select_def extension_case_def simp del: not_None_eq)
qed

lemma type_name_joins:
  assumes "type_name db t = Some n"
  shows "\<exists>rt\<in>set (record_type db). rt_id rt = t \<and> rt_name rt = n"
proof -
  from assms obtain rt where f: "find (\<lambda>rt. rt_id rt = t) (record_type db) = Some rt"
    and n: "rt_name rt = n"
    by (auto simp: type_name_def)
  from f have "rt \<in> set (record_type db) \<and> rt_id rt = t"
    by (auto simp: find_Some_iff)
  with n show ?thesis by blast
qed

lemma fact_in_view:
  assumes "pr \<in> set (processed_record db)" and "type_name db (pr_type pr) = Some n"
    and "n = ''platform_extension_mm'' \<or> n = ''platform_extension_ticks''"
  shows "\<lparr>v_device_id = pr_device_id pr, v_observed_at = pr_record_time pr,
          v_extension_mm = extension_case n (pr_value pr)\<rparr> \<in> set (v_platform_extension_mm db)"
proof -
  from type_name_joins [OF assms(2)] obtain rt
    where rt: "rt \<in> set (record_type db)" "rt_id rt = pr_type pr" "rt_name rt = n" by blast
  with assms(3) have "extension_join pr rt" by (auto simp: extension_join_def)
  with rt(1) assms(1) have "extension_select pr rt \<in> set (v_platform_extension_mm db)"
    by (auto simp: v_platform_extension_mm_def)
  with rt(3) show ?thesis by (simp add: extension_select_def)
qed

text \<open>
  C3. Unification View conversion. With \<open>record_type.id\<close> a primary key, the view is the
  list of the unified readings of the facts: a fact of the millimeter type gives a row
  whose \<open>extension_mm\<close> is the stored value, a fact of the legacy ticks type a row whose
  \<open>extension_mm\<close> is the value divided by 20, and a fact of any other type gives no row.
  In particular a ticks fact with value 100 is reported as 5 millimeters.
\<close>

theorem unification_view_conversion:
  assumes "record_type_pkey (record_type db)"
  shows "v_platform_extension_mm db = List.map_filter (unified_reading db) (processed_record db) \<and>
         (\<forall>pr\<in>set (processed_record db).
            type_name db (pr_type pr) = Some ''platform_extension_ticks'' \<and> pr_value pr = 100 \<longrightarrow>
            \<lparr>v_device_id = pr_device_id pr, v_observed_at = pr_record_time pr,
             v_extension_mm = Some 5\<rparr> \<in> set (v_platform_extension_mm db))"
proof
  show "v_platform_extension_mm db = List.map_filter (unified_reading db) (processed_record db)"
    by (rule view_eq_readings [OF assms])
next
  show "\<forall>pr\<in>set (processed_record db).
          type_name db (pr_type pr) = Some ''platform_extension_ticks'' \<and> pr_value pr = 100 \<longrightarrow>
          \<lparr>v_device_id = pr_device_id pr, v_observed_at = pr_record_time pr,
           v_extension_mm = Some 5\<rparr> \<in> set (v_platform_extension_mm db)"
  proof (intro ballI impI)
    fix pr
    assume pr: "pr \<in> set (processed_record db)"
      and t: "type_name db (pr_type pr) = Some ''platform_extension_ticks'' \<and> pr_value pr = 100"
    from fact_in_view [OF pr conjunct1 [OF t]] t
    show "\<lparr>v_device_id = pr_device_id pr, v_observed_at = pr_record_time pr,
           v_extension_mm = Some 5\<rparr> \<in> set (v_platform_extension_mm db)"
      by (simp add: extension_case_def)
  qed
qed

theorem unification_view_conversion_witness:
  "record_type_pkey (record_type scenario_a) \<and>
   v_platform_extension_mm scenario_a =
     [\<lparr>v_device_id = 42, v_observed_at = 1704067200000000, v_extension_mm = Some 5\<rparr>] \<and>
   \<lparr>v_device_id = 42, v_observed_at = 1704067200000000, v_extension_mm = Some 5\<rparr>
     \<in> set (v_platform_extension_mm scenario_a)"
proof -
  have k: "record_type_pkey (record_type scenario_a)"
    by (simp add: record_type_pkey_def scenario_a_types init_db_def)
  from unification_view_conversion [OF k]
  have "v_platform_extension_mm scenario_a =
          List.map_filter (unified_reading scenario_a) (processed_record scenario_a)"
    by (rule conjunct1)
  then have "v_platform_extension_mm scenario_a =
     [\<lparr>v_device_id = 42, v_observed_at = 1704067200000000, v_extension_mm = Some 5\<rparr>]"
    by (simp add: scenario_a_processed List.map_filter_simps unified_reading_def type_name_def
        scenario_a_types init_db_def)
  with k show ?thesis by simp
qed

text \<open>
  C4. Unit equivalence. For every numeric \<open>T\<close>, a fact of the ticks type with value \<open>T\<close>
  and a fact of the millimeter type with value \<open>T / 20\<close>, at any two timestamps, are
  both reported by the view, with the same \<open>extension_mm\<close>, namely \<open>T / 20\<close>.
\<close>

theorem unit_equivalence:
  assumes "p1 \<in> set (processed_record db)" and "p2 \<in> set (processed_record db)"
    and "type_name db (pr_type p1) = Some ''platform_extension_ticks''"
    and "type_name db (pr_type p2) = Some ''platform_extension_mm''"
    and "pr_value p1 = T" and "pr_value p2 = T / 20"
  shows "\<lparr>v_device_id = pr_device_id p1, v_observed_at = pr_record_time p1,
          v_extension_mm = Some (T / 20)\<rparr> \<in> set (v_platform_extension_mm db) \<and>
         \<lparr>v_device_id = pr_device_id p2, v_observed_at = pr_record_time p2,
          v_extension_mm = Some (T / 20)\<rparr> \<in> set (v_platform_extension_mm db)"
  using fact_in_view [OF assms(1) assms(3)] fact_in_view [OF assms(2) assms(4)] assms(5,6)
  by (simp add: extension_case_def)

theorem unit_equivalence_witness:
  "\<lparr>v_device_id = 42, v_observed_at = 10, v_extension_mm = Some (100 / 20)\<rparr>
     \<in> set (v_platform_extension_mm mixed_rollout) \<and>
   \<lparr>v_device_id = 42, v_observed_at = 20, v_extension_mm = Some (100 / 20)\<rparr>
     \<in> set (v_platform_extension_mm mixed_rollout)"
  using unit_equivalence [of
      "\<lparr>pr_id = 1, pr_device_id = 42, pr_raw_data_id = 1, pr_record_time = 10, pr_type = 1, pr_value = 100\<rparr>"
      mixed_rollout
      "\<lparr>pr_id = 2, pr_device_id = 42, pr_raw_data_id = 2, pr_record_time = 20, pr_type = 2, pr_value = 5\<rparr>"
      100]
  by (simp add: mixed_rollout_processed mixed_rollout_types type_name_def init_db_def)

text \<open>
  C9. Every row of the Unification View has a non-null \<open>extension_mm\<close>: the \<open>WHERE\<close>
  clause keeps exactly the two type names that the \<open>CASE\<close> expression handles.
\<close>

theorem extension_mm_not_null:
  "\<forall>r\<in>set (v_platform_extension_mm db). v_extension_mm r \<noteq> None"
  using view_row_not_null by blast

theorem extension_mm_not_null_witness:
  "\<lparr>v_device_id = 42, v_observed_at = 40, v_extension_mm = Some 3\<rparr>
     \<in> set (v_platform_extension_mm mixed_rollout) \<and>
   v_extension_mm \<lparr>v_device_id = 42, v_observed_at = 40, v_extension_mm = Some 3\<rparr> \<noteq> None"
proof -
  have m: "\<lparr>v_device_id = 42, v_observed_at = 40, v_extension_mm = Some 3\<rparr>
             \<in> set (v_platform_extension_mm mixed_rollout)"
    by (simp add: mixed_rollout_view)
  from extension_mm_not_null m
  have "v_extension_mm \<lparr>v_device_id = 42, v_observed_at = 40, v_extension_mm = Some 3\<rparr> \<noteq> None"
    by (rule bspec)
  with m show ?thesis by (rule conjI)
qed

section \<open>Windows and transitions\<close>

lemma group_keys_set: "set (group_keys ks) = set ks"
  by (simp add: group_keys_def)

lemma group_keys_distinct: "distinct (group_keys ks)"
  by (simp add: group_keys_def)

lemma group_keys_sorted: "sorted (group_keys ks)"
  by (simp add: group_keys_def)

lemma group_keys_cong: "set a = set b \<Longrightarrow> group_keys a = group_keys b"
  by (simp add: group_keys_def sorted_list_of_set_sort_remdups [symmetric])

lemma filter_concat_groups:
  assumes "distinct ks" and "\<And>k x. k \<in> set ks \<Longrightarrow> x \<in> set (f k) \<Longrightarrow> key x = k"
  shows "filter (\<lambda>x. key x = d) (concat (map f ks)) = (if d \<in> set ks then f d else [])"
  using assms
proof (induction ks)
  case Nil
  then show ?case by simp
next
  case (Cons k ks)
  have own: "filter (\<lambda>x. key x = d) (f k) = (if d = k then f k else [])"
    using Cons.prems(2) [of k] by (auto simp: filter_empty_conv filter_id_conv)
  have rest: "filter (\<lambda>x. key x = d) (concat (map f ks)) = (if d \<in> set ks then f d else [])"
    using Cons.IH Cons.prems by simp
  from Cons.prems(1) have "k \<notin> set ks" by simp
  with own rest show ?case by auto
qed

lemma window_partition_set:
  "set (window_partition rows d) = {r \<in> set rows. v_device_id r = d}"
  by (auto simp: window_partition_def)

lemma length_lag_from: "length (lag_from p xs) = length xs"
  by (induction xs arbitrary: p) simp_all

lemma length_lag: "length (lag xs) = length xs"
  by (simp add: lag_def length_lag_from)

lemma map2_fst:
  "length ys = length xs \<Longrightarrow> (\<And>x y. k (mk x y) = h x) \<Longrightarrow> map k (map2 mk xs ys) = map h xs"
  by (induction xs ys rule: list_induct2') simp_all

lemma transitions_Cons: "transitions (p # x # xs) = (p, x) # transitions (x # xs)"
  by (simp add: transitions_def)

lemma count_transitions_Cons:
  "count_transitions R (p # x # xs) = (if R p x then 1 else 0) + count_transitions R (x # xs)"
  by (simp add: count_transitions_def transitions_def)

lemma count_transitions_single: "count_transitions R [x] = 0"
  by (simp add: count_transitions_def transitions_def)

lemma count_transitions_Nil: "count_transitions R [] = 0"
  by (simp add: count_transitions_def transitions_def)

lemma lag_from_count:
  assumes "\<And>r p. r \<in> set part \<Longrightarrow> Q (mk r (Some p)) = R p (e r)"
  shows "length (filter Q (map2 mk part (lag_from (Some p) (map (\<lambda>r. Some (e r)) part)))) =
         count_transitions R (p # map e part)"
  using assms
proof (induction part arbitrary: p)
  case Nil
  then show ?case by (simp add: count_transitions_single)
next
  case (Cons r part)
  have "length (filter Q (map2 mk part (lag_from (Some (e r)) (map (\<lambda>r. Some (e r)) part)))) =
        count_transitions R (e r # map e part)"
    using Cons.IH [of "e r"] Cons.prems by simp
  moreover have "Q (mk r (Some p)) = R p (e r)" using Cons.prems by simp
  ultimately show ?case by (simp add: count_transitions_Cons)
qed

lemma lag_count:
  assumes "\<And>r p. r \<in> set part \<Longrightarrow> Q (mk r (Some p)) = R p (e r)"
    and "\<And>r. r \<in> set part \<Longrightarrow> \<not> Q (mk r None)"
  shows "length (filter Q (map2 mk part (lag (map (\<lambda>r. Some (e r)) part)))) =
         count_transitions R (map e part)"
proof (cases part)
  case Nil
  then show ?thesis by (simp add: lag_def count_transitions_Nil)
next
  case (Cons r rest)
  have "length (filter Q (map2 mk rest (lag_from (Some (e r)) (map (\<lambda>r. Some (e r)) rest)))) =
        count_transitions R (e r # map e rest)"
    by (rule lag_from_count) (simp add: assms(1) Cons)
  moreover have "\<not> Q (mk r None)" using assms(2) Cons by simp
  ultimately show ?thesis using Cons by (simp add: lag_def)
qed

lemma count_transitions_map:
  "count_transitions R (map f xs) = count_transitions (\<lambda>p c. R (f p) (f c)) xs"
proof -
  have "transitions (map f xs) = map (map_prod f f) (transitions xs)"
    by (simp add: transitions_def map_tl [symmetric] zip_map_map map_prod_def split_def)
  then show ?thesis
    by (simp add: count_transitions_def filter_map o_def)
qed

lemma count_transitions_trichotomy:
  fixes xs :: "rat list"
  shows "count_transitions (\<lambda>p c. p < c) xs + count_transitions (\<lambda>p c. c < p) xs +
         count_transitions (\<lambda>p c. p = c) xs = length xs - 1"
proof -
  have "length (filter (\<lambda>pc. fst pc < snd pc) ps) + length (filter (\<lambda>pc. snd pc < fst pc) ps) +
        length (filter (\<lambda>pc. fst pc = snd pc) ps) = length ps" for ps :: "(rat \<times> rat) list"
    by (induction ps) auto
  then show ?thesis
    by (simp add: count_transitions_def transitions_def)
qed

lemma sum_list_indicator:
  "sum_list (map (\<lambda>r. if P r then 1 else 0) xs) = int (length (filter P xs))"
  by (induction xs) simp_all

lemma not_null_values:
  assumes "\<And>r. r \<in> set part \<Longrightarrow> v_extension_mm r \<noteq> None"
  shows "map v_extension_mm part = map (\<lambda>r. Some (the (v_extension_mm r))) part"
  using assms by (induction part) auto


lemma window_partition_nonempty:
  "d \<in> set (map v_device_id rows) \<Longrightarrow> window_partition rows d \<noteq> []"
proof -
  assume "d \<in> set (map v_device_id rows)"
  then have "set (window_partition rows d) \<noteq> {}" by (auto simp: window_partition_set)
  then show ?thesis by auto
qed

lemma windowed_unfold:
  "concat (map g (window_partitions rows)) =
   concat (map (\<lambda>k. g (window_partition rows k)) (group_keys (map v_device_id rows)))"
  by (simp add: window_partitions_def o_def)

text \<open>The rows that a window query computes for the partition of one device.\<close>

lemma windowed_group:
  assumes "\<And>part. map key (g part) = map v_device_id part"
    and "d \<in> set (map v_device_id rows)"
  shows "filter (\<lambda>x. key x = d) (concat (map g (window_partitions rows))) = g (window_partition rows d)"
proof -
  have "filter (\<lambda>x. key x = d)
          (concat (map (\<lambda>k. g (window_partition rows k)) (group_keys (map v_device_id rows)))) =
        (if d \<in> set (group_keys (map v_device_id rows)) then g (window_partition rows d) else [])"
  proof (rule filter_concat_groups)
    show "distinct (group_keys (map v_device_id rows))" by (rule group_keys_distinct)
  next
    fix k x
    assume "x \<in> set (g (window_partition rows k))"
    then have "key x \<in> set (map key (g (window_partition rows k)))" by simp
    then have "key x \<in> set (map v_device_id (window_partition rows k))" by (simp only: assms(1))
    then show "key x = k" by (auto simp: window_partition_set)
  qed
  with assms(2) show ?thesis by (simp add: windowed_unfold group_keys_set)
qed

lemma windowed_devices:
  assumes "\<And>part. map key (g part) = map v_device_id part"
  shows "set (map key (concat (map g (window_partitions rows)))) = set (map v_device_id rows)"
proof -
  have "map key (concat (map g (window_partitions rows))) =
        concat (map (\<lambda>k. map v_device_id (window_partition rows k)) (group_keys (map v_device_id rows)))"
    by (simp add: windowed_unfold map_concat o_def assms)
  then show ?thesis
    by (auto simp: group_keys_set window_partition_set)
qed

lemma series_part_devices:
  "map s_device_id (map2 series_select part (lag (map v_extension_mm part))) = map v_device_id part"
  by (rule map2_fst) (simp_all add: length_lag series_select_def)

lemma is_extension_select:
  "is_extension (series_select r prev) \<longleftrightarrow>
     (case prev of None \<Rightarrow> False
      | Some p \<Rightarrow> (case v_extension_mm r of None \<Rightarrow> False | Some c \<Rightarrow> p < c))"
  by (simp add: is_extension_def series_select_def sql_and_def sql_gt_def is_not_null_def
      is_true_def split: option.splits)

lemma is_retraction_select:
  "is_retraction (series_select r prev) \<longleftrightarrow>
     (case prev of None \<Rightarrow> False
      | Some p \<Rightarrow> (case v_extension_mm r of None \<Rightarrow> False | Some c \<Rightarrow> c < p))"
  by (simp add: is_retraction_def series_select_def sql_and_def sql_lt_def is_not_null_def
      is_true_def split: option.splits)

lemma metric_rows:
  "metric_extension_vs_retraction db =
     map (\<lambda>d. \<lparr>m_device_id = d,
               m_extensions = int (length (filter is_extension
                 (map2 series_select (device_readings db d)
                    (lag (map v_extension_mm (device_readings db d)))))),
               m_retractions = int (length (filter is_retraction
                 (map2 series_select (device_readings db d)
                    (lag (map v_extension_mm (device_readings db d))))))\<rparr>)
         (group_keys (map v_device_id (v_platform_extension_mm db)))"
proof -
  let ?V = "v_platform_extension_mm db"
  let ?g = "\<lambda>part. map2 series_select part (lag (map v_extension_mm part))"
  have s: "series db = concat (map ?g (window_partitions ?V))"
    by (simp add: series_def)
  have keys: "group_keys (map s_device_id (series db)) = group_keys (map v_device_id ?V)"
    unfolding s by (rule group_keys_cong) (rule windowed_devices, rule series_part_devices)
  have grp: "filter (\<lambda>r. s_device_id r = d) (series db) = ?g (device_readings db d)"
    if "d \<in> set (group_keys (map v_device_id ?V))" for d
    unfolding s device_readings_def window_partition_def [symmetric]
    using that by (intro windowed_group series_part_devices) (simp add: group_keys_set)
  show ?thesis
    unfolding metric_extension_vs_retraction_def Let_def keys
  proof (rule map_cong)
    fix d
    assume "d \<in> set (group_keys (map v_device_id ?V))"
    then have g: "filter (\<lambda>r. s_device_id r = d) (series db) = ?g (device_readings db d)"
      by (rule grp)
    show "\<lparr>m_device_id = d,
           m_extensions = sum_list (map (\<lambda>r. if is_extension r then 1 else 0)
                                      (filter (\<lambda>r. s_device_id r = d) (series db))),
           m_retractions = sum_list (map (\<lambda>r. if is_retraction r then 1 else 0)
                                      (filter (\<lambda>r. s_device_id r = d) (series db)))\<rparr> =
          \<lparr>m_device_id = d,
           m_extensions = int (length (filter is_extension (?g (device_readings db d)))),
           m_retractions = int (length (filter is_retraction (?g (device_readings db d))))\<rparr>"
      by (simp only: g sum_list_indicator)
  qed (rule refl)
qed

lemma device_readings_values:
  "map v_extension_mm (device_readings db d) =
   map (\<lambda>r. Some (the (v_extension_mm r))) (device_readings db d)"
proof (rule not_null_values)
  fix r
  assume "r \<in> set (device_readings db d)"
  then have "r \<in> set (v_platform_extension_mm db)" by (simp add: device_readings_def)
  then show "v_extension_mm r \<noteq> None" by (rule view_row_not_null)
qed



lemma is_extension_not_null:
  "v_extension_mm r \<noteq> None \<Longrightarrow>
   is_extension (series_select r (Some p)) = (p < the (v_extension_mm r))"
  by (cases "v_extension_mm r") (simp_all add: is_extension_select)

lemma is_retraction_not_null:
  "v_extension_mm r \<noteq> None \<Longrightarrow>
   is_retraction (series_select r (Some p)) = (the (v_extension_mm r) < p)"
  by (cases "v_extension_mm r") (simp_all add: is_retraction_select)

lemma device_readings_not_null:
  "r \<in> set (device_readings db d) \<Longrightarrow> v_extension_mm r \<noteq> None"
  by (rule view_row_not_null [of r db]) (simp add: device_readings_def)

text \<open>
  C5. Extension-vs-retraction metric. The view has exactly one row per device that has
  unified readings. With \<open>xs\<close> the readings of that device ordered by \<open>observed_at\<close>,
  \<open>extensions\<close> is the number of consecutive pairs whose current value strictly exceeds
  the preceding one and \<open>retractions\<close> the number of pairs where it is strictly less;
  pairs of equal values count as neither, and the first reading, which has no
  predecessor, is the current one of no pair, so that the two counts and the number of
  equal pairs add up to one less than the number of readings.
\<close>

theorem extension_vs_retraction_counts:
  "distinct (map m_device_id (metric_extension_vs_retraction db)) \<and>
   set (map m_device_id (metric_extension_vs_retraction db)) =
     set (map v_device_id (v_platform_extension_mm db)) \<and>
   (\<forall>m\<in>set (metric_extension_vs_retraction db).
      \<exists>xs. map v_extension_mm (device_readings db (m_device_id m)) = map Some xs \<and> xs \<noteq> [] \<and>
           m_extensions m = int (count_transitions (\<lambda>p c. p < c) xs) \<and>
           m_retractions m = int (count_transitions (\<lambda>p c. c < p) xs) \<and>
           m_extensions m + m_retractions m + int (count_transitions (\<lambda>p c. p = c) xs) =
             int (length xs) - 1)"
proof (intro conjI ballI)
  have ids: "map m_device_id (metric_extension_vs_retraction db) =
             group_keys (map v_device_id (v_platform_extension_mm db))"
    by (simp add: metric_rows o_def)
  show "distinct (map m_device_id (metric_extension_vs_retraction db))"
    by (simp only: ids group_keys_distinct)
  show "set (map m_device_id (metric_extension_vs_retraction db)) =
          set (map v_device_id (v_platform_extension_mm db))"
    by (simp only: ids group_keys_set)
next
  fix m
  let ?g = "\<lambda>part. map2 series_select part (lag (map v_extension_mm part))"
  assume "m \<in> set (metric_extension_vs_retraction db)"
  then have "m \<in> (\<lambda>d. \<lparr>m_device_id = d,
               m_extensions = int (length (filter is_extension (?g (device_readings db d)))),
               m_retractions = int (length (filter is_retraction (?g (device_readings db d))))\<rparr>)
             ` set (map v_device_id (v_platform_extension_mm db))"
    by (simp only: metric_rows set_map group_keys_set)
  then obtain d where d: "d \<in> set (map v_device_id (v_platform_extension_mm db))"
    and m: "m = \<lparr>m_device_id = d,
               m_extensions = int (length (filter is_extension (?g (device_readings db d)))),
               m_retractions = int (length (filter is_retraction (?g (device_readings db d))))\<rparr>"
    by (rule imageE)
  let ?part = "device_readings db d"
  let ?e = "\<lambda>r. the (v_extension_mm r)"
  let ?xs = "map ?e ?part"
  have vals: "map v_extension_mm ?part = map (\<lambda>r. Some (?e r)) ?part"
    by (rule device_readings_values)
  have "length (filter is_extension (map2 series_select ?part (lag (map (\<lambda>r. Some (?e r)) ?part)))) =
        count_transitions (\<lambda>p c. p < c) ?xs"
  proof (rule lag_count)
    fix r p assume "r \<in> set ?part"
    then show "is_extension (series_select r (Some p)) = (p < ?e r)"
      by (intro is_extension_not_null device_readings_not_null)
  next
    fix r show "\<not> is_extension (series_select r None)" by (simp add: is_extension_select)
  qed
  then have ext: "m_extensions m = int (count_transitions (\<lambda>p c. p < c) ?xs)"
    by (simp only: m vals extension_vs_retraction_row.simps)
  have "length (filter is_retraction (map2 series_select ?part (lag (map (\<lambda>r. Some (?e r)) ?part)))) =
        count_transitions (\<lambda>p c. c < p) ?xs"
  proof (rule lag_count)
    fix r p assume "r \<in> set ?part"
    then show "is_retraction (series_select r (Some p)) = (?e r < p)"
      by (intro is_retraction_not_null device_readings_not_null)
  next
    fix r show "\<not> is_retraction (series_select r None)" by (simp add: is_retraction_select)
  qed
  then have ret: "m_retractions m = int (count_transitions (\<lambda>p c. c < p) ?xs)"
    by (simp only: m vals extension_vs_retraction_row.simps)
  have ne: "?xs \<noteq> []"
    using window_partition_nonempty [OF d] by (simp add: device_readings_def window_partition_def)
  then have len: "1 \<le> length ?xs" by (cases ?xs) simp_all
  have tri: "count_transitions (\<lambda>p c. p < c) ?xs + count_transitions (\<lambda>p c. c < p) ?xs +
             count_transitions (\<lambda>p c. p = c) ?xs = length ?xs - 1"
    by (rule count_transitions_trichotomy)
  have dm: "m_device_id m = d" by (simp add: m)
  have "map v_extension_mm (device_readings db (m_device_id m)) = map Some ?xs \<and> ?xs \<noteq> [] \<and>
        m_extensions m = int (count_transitions (\<lambda>p c. p < c) ?xs) \<and>
        m_retractions m = int (count_transitions (\<lambda>p c. c < p) ?xs) \<and>
        m_extensions m + m_retractions m + int (count_transitions (\<lambda>p c. p = c) ?xs) =
          int (length ?xs) - 1"
  proof (intro conjI)
    show "map v_extension_mm (device_readings db (m_device_id m)) = map Some ?xs"
      unfolding dm using vals by (simp add: o_def)
    show "?xs \<noteq> []" by (rule ne)
    show "m_extensions m = int (count_transitions (\<lambda>p c. p < c) ?xs)" by (rule ext)
    show "m_retractions m = int (count_transitions (\<lambda>p c. c < p) ?xs)" by (rule ret)
    from tri len show "m_extensions m + m_retractions m + int (count_transitions (\<lambda>p c. p = c) ?xs) =
          int (length ?xs) - 1"
      unfolding ext ret by linarith
  qed
  then show "\<exists>xs. map v_extension_mm (device_readings db (m_device_id m)) = map Some xs \<and> xs \<noteq> [] \<and>
           m_extensions m = int (count_transitions (\<lambda>p c. p < c) xs) \<and>
           m_retractions m = int (count_transitions (\<lambda>p c. c < p) xs) \<and>
           m_extensions m + m_retractions m + int (count_transitions (\<lambda>p c. p = c) xs) =
             int (length xs) - 1"
    by (rule exI)
qed


lemma mixed_rollout_metric:
  "metric_extension_vs_retraction mixed_rollout =
     [\<lparr>m_device_id = 9, m_extensions = 0, m_retractions = 0\<rparr>,
      \<lparr>m_device_id = 42, m_extensions = 2, m_retractions = 3\<rparr>]"
  by (simp add: metric_extension_vs_retraction_def series_def window_partitions_def
      window_partition_def group_keys_def mixed_rollout_view lag_def series_select_def
      is_extension_def is_retraction_def sql_and_def sql_gt_def sql_lt_def is_not_null_def
      is_true_def)

theorem extension_vs_retraction_counts_witness:
  "\<lparr>m_device_id = 42, m_extensions = 2, m_retractions = 3\<rparr>
     \<in> set (metric_extension_vs_retraction mixed_rollout) \<and>
   (\<exists>xs. map v_extension_mm (device_readings mixed_rollout 42) = map Some xs \<and> xs \<noteq> [] \<and>
         2 = int (count_transitions (\<lambda>p c. p < c) xs) \<and>
         3 = int (count_transitions (\<lambda>p c. c < p) xs) \<and>
         2 + 3 + int (count_transitions (\<lambda>p c. p = c) xs) = int (length xs) - 1)"
proof -
  have m: "\<lparr>m_device_id = 42, m_extensions = 2, m_retractions = 3\<rparr>
             \<in> set (metric_extension_vs_retraction mixed_rollout)"
    by (simp add: mixed_rollout_metric)
  from extension_vs_retraction_counts [of mixed_rollout]
  have "\<forall>m\<in>set (metric_extension_vs_retraction mixed_rollout).
      \<exists>xs. map v_extension_mm (device_readings mixed_rollout (m_device_id m)) = map Some xs \<and> xs \<noteq> [] \<and>
           m_extensions m = int (count_transitions (\<lambda>p c. p < c) xs) \<and>
           m_retractions m = int (count_transitions (\<lambda>p c. c < p) xs) \<and>
           m_extensions m + m_retractions m + int (count_transitions (\<lambda>p c. p = c) xs) =
             int (length xs) - 1"
    by (elim conjE)
  from bspec [OF this m] m show ?thesis by simp
qed

section \<open>Side switches\<close>

lemma side_part_devices:
  "map sw_device_id (map2 side_select part (lag (map (\<lambda>r. Some (side_case (v_extension_mm r))) part))) =
   map v_device_id part"
  by (rule map2_fst) (simp_all add: length_lag side_select_def)

lemma is_left_to_right_select:
  "is_left_to_right (side_select r prev) \<longleftrightarrow>
     prev = Some ''left'' \<and> side_case (v_extension_mm r) = ''right''"
  by (cases prev) (simp_all add: is_left_to_right_def side_select_def sql_and_def sql_eq_def is_true_def)

lemma is_right_to_left_select:
  "is_right_to_left (side_select r prev) \<longleftrightarrow>
     prev = Some ''right'' \<and> side_case (v_extension_mm r) = ''left''"
  by (cases prev) (simp_all add: is_right_to_left_def side_select_def sql_and_def sql_eq_def is_true_def)

lemma side_where_iff:
  "side_where r \<longleftrightarrow> sw_prev_side r \<noteq> None \<and> sw_side r \<noteq> ''center''"
  by (simp add: side_where_def sql_and_def sql_neq_def is_not_null_def is_true_def)

lemma is_left_to_right_iff:
  "is_left_to_right r \<longleftrightarrow> sw_prev_side r = Some ''left'' \<and> sw_side r = ''right''"
  by (cases "sw_prev_side r")
     (auto simp: is_left_to_right_def sql_and_def sql_eq_def is_true_def split: if_splits)

lemma is_right_to_left_iff:
  "is_right_to_left r \<longleftrightarrow> sw_prev_side r = Some ''right'' \<and> sw_side r = ''left''"
  by (cases "sw_prev_side r")
     (auto simp: is_right_to_left_def sql_and_def sql_eq_def is_true_def split: if_splits)

lemma left_to_right_where: "is_left_to_right r \<Longrightarrow> side_where r"
  by (simp add: is_left_to_right_iff side_where_iff)

lemma right_to_left_where: "is_right_to_left r \<Longrightarrow> side_where r"
  by (simp add: is_right_to_left_iff side_where_iff)

lemma filter_implied: "(\<And>x. P x \<Longrightarrow> Q x) \<Longrightarrow> filter P (filter Q xs) = filter P xs"
  by (induction xs) auto

lemma side_case_classify: "side_case (Some x) = classify x"
  by (simp add: side_case_def classify_def sql_gt_def sql_lt_def is_true_def)

lemma side_series_group:
  assumes "d \<in> set (map v_device_id (v_platform_extension_mm db))"
  shows "filter (\<lambda>r. sw_device_id r = d) (side_series db) = side_rows db d"
  unfolding side_series_def side_rows_def device_readings_def window_partition_def [symmetric]
  using assms by (intro windowed_group side_part_devices)

lemma side_series_devices:
  "set (map sw_device_id (side_series db)) = set (map v_device_id (v_platform_extension_mm db))"
  unfolding side_series_def by (rule windowed_devices) (rule side_part_devices)

lemma side_switches_keys:
  "set (group_keys (map sw_device_id (filter side_where (side_series db)))) =
   {d \<in> set (map v_device_id (v_platform_extension_mm db)). filter side_where (side_rows db d) \<noteq> []}"
proof -
  have "d \<in> set (map sw_device_id (filter side_where (side_series db))) \<longleftrightarrow>
        d \<in> set (map v_device_id (v_platform_extension_mm db)) \<and> filter side_where (side_rows db d) \<noteq> []"
    for d
  proof
    assume "d \<in> set (map sw_device_id (filter side_where (side_series db)))"
    then obtain r where r: "r \<in> set (side_series db)" "side_where r" "sw_device_id r = d" by auto
    then have "d \<in> set (map sw_device_id (side_series db))" by auto
    then have d: "d \<in> set (map v_device_id (v_platform_extension_mm db))"
      by (simp only: side_series_devices)
    from r have "r \<in> set (filter (\<lambda>r. sw_device_id r = d) (side_series db))" by simp
    then have "r \<in> set (side_rows db d)" by (simp only: side_series_group [OF d])
    with r(2) have "r \<in> set (filter side_where (side_rows db d))" by simp
    then have "filter side_where (side_rows db d) \<noteq> []" by (auto simp: filter_empty_conv)
    with d show "d \<in> set (map v_device_id (v_platform_extension_mm db)) \<and>
                 filter side_where (side_rows db d) \<noteq> []" by simp
  next
    assume a: "d \<in> set (map v_device_id (v_platform_extension_mm db)) \<and>
               filter side_where (side_rows db d) \<noteq> []"
    then obtain r where "r \<in> set (filter side_where (side_rows db d))"
      by (cases "filter side_where (side_rows db d)") auto
    then have r: "side_where r" "r \<in> set (side_rows db d)" by simp_all
    from r(2) a have "r \<in> set (filter (\<lambda>r. sw_device_id r = d) (side_series db))"
      by (simp only: side_series_group)
    with r(1) show "d \<in> set (map sw_device_id (filter side_where (side_series db)))" by auto
  qed
  then show ?thesis by (auto simp only: group_keys_set mem_Collect_eq)
qed

lemma side_switches_rows:
  "side_switches db =
     map (\<lambda>d. \<lparr>x_device_id = d,
               x_left_to_right = int (length (filter is_left_to_right (side_rows db d))),
               x_right_to_left = int (length (filter is_right_to_left (side_rows db d)))\<rparr>)
         (group_keys (map sw_device_id (filter side_where (side_series db))))"
  unfolding side_switches_def Let_def
proof (rule map_cong)
  fix d
  assume "d \<in> set (group_keys (map sw_device_id (filter side_where (side_series db))))"
  then have "d \<in> set (map v_device_id (v_platform_extension_mm db))"
    by (simp only: side_switches_keys mem_Collect_eq)
  then have g: "filter (\<lambda>r. sw_device_id r = d) (side_series db) = side_rows db d"
    by (rule side_series_group)
  have "filter (\<lambda>r. sw_device_id r = d) (filter side_where (side_series db)) =
        filter side_where (filter (\<lambda>r. sw_device_id r = d) (side_series db))"
    by (simp add: conj_commute)
  then have f: "filter (\<lambda>r. sw_device_id r = d) (filter side_where (side_series db)) =
                filter side_where (side_rows db d)"
    by (simp only: g)
  show "\<lparr>x_device_id = d,
         x_left_to_right = int (length (filter is_left_to_right
            (filter (\<lambda>r. sw_device_id r = d) (filter side_where (side_series db))))),
         x_right_to_left = int (length (filter is_right_to_left
            (filter (\<lambda>r. sw_device_id r = d) (filter side_where (side_series db)))))\<rparr> =
        \<lparr>x_device_id = d,
         x_left_to_right = int (length (filter is_left_to_right (side_rows db d))),
         x_right_to_left = int (length (filter is_right_to_left (side_rows db d)))\<rparr>"
    by (simp only: f filter_implied [of is_left_to_right side_where, OF left_to_right_where]
        filter_implied [of is_right_to_left side_where, OF right_to_left_where])
qed (rule refl)

text \<open>The counts over the rows of one device, in the words of the specification.\<close>

lemma side_rows_counts:
  "\<exists>xs. map v_extension_mm (device_readings db d) = map Some xs \<and>
        length (filter is_left_to_right (side_rows db d)) =
          count_transitions (\<lambda>p c. classify p = ''left'' \<and> classify c = ''right'') xs \<and>
        length (filter is_right_to_left (side_rows db d)) =
          count_transitions (\<lambda>p c. classify p = ''right'' \<and> classify c = ''left'') xs \<and>
        length (filter side_where (side_rows db d)) =
          count_transitions (\<lambda>p c. classify c \<noteq> ''center'') xs"
proof -
  let ?part = "device_readings db d"
  let ?e = "\<lambda>r. side_case (v_extension_mm r)"
  let ?xs = "map (\<lambda>r. the (v_extension_mm r)) ?part"
  have vals: "map v_extension_mm ?part = map Some ?xs"
    using device_readings_values [of db d] by (simp add: o_def)
  have sides: "map ?e ?part = map classify ?xs"
  proof -
    have "?e r = classify (the (v_extension_mm r))" if "r \<in> set ?part" for r
      using device_readings_not_null [OF that]
      by (cases "v_extension_mm r") (simp_all add: side_case_classify)
    then show ?thesis by (simp add: o_def)
  qed
  have l2r: "length (filter is_left_to_right (side_rows db d)) =
             count_transitions (\<lambda>p c. p = ''left'' \<and> c = ''right'') (map ?e ?part)"
    unfolding side_rows_def
    by (rule lag_count) (simp_all add: is_left_to_right_select)
  have r2l: "length (filter is_right_to_left (side_rows db d)) =
             count_transitions (\<lambda>p c. p = ''right'' \<and> c = ''left'') (map ?e ?part)"
    unfolding side_rows_def
    by (rule lag_count) (simp_all add: is_right_to_left_select)
  have wh: "length (filter side_where (side_rows db d)) =
            count_transitions (\<lambda>p c. c \<noteq> ''center'') (map ?e ?part)"
    unfolding side_rows_def
    by (rule lag_count) (simp_all add: side_where_iff side_select_def)
  have "map v_extension_mm (device_readings db d) = map Some ?xs \<and>
        length (filter is_left_to_right (side_rows db d)) =
          count_transitions (\<lambda>p c. classify p = ''left'' \<and> classify c = ''right'') ?xs \<and>
        length (filter is_right_to_left (side_rows db d)) =
          count_transitions (\<lambda>p c. classify p = ''right'' \<and> classify c = ''left'') ?xs \<and>
        length (filter side_where (side_rows db d)) =
          count_transitions (\<lambda>p c. classify c \<noteq> ''center'') ?xs"
    using vals l2r r2l wh
    by (simp only: sides
        count_transitions_map [of "\<lambda>p c. p = ''left'' \<and> c = ''right''" classify]
        count_transitions_map [of "\<lambda>p c. p = ''right'' \<and> c = ''left''" classify]
        count_transitions_map [of "\<lambda>p c. c \<noteq> ''center''" classify] simp_thms)
  then show ?thesis by (rule exI)
qed


text \<open>
  C6. Side-switch counts. The result is ordered by device and has at most one row per
  device. With \<open>xs\<close> the readings of the device ordered by \<open>observed_at\<close>, each
  classified left (negative), right (positive) or center (zero), \<open>left_to_right\<close> is the
  number of readings classified right whose immediately preceding reading is classified
  left, and \<open>right_to_left\<close> symmetrically; a transition into or out of center is in
  neither count. A device with readings that has no row in the result has no such
  transition.
\<close>

theorem side_switch_counts:
  "sorted (map x_device_id (side_switches db)) \<and>
   distinct (map x_device_id (side_switches db)) \<and>
   (\<forall>s\<in>set (side_switches db).
      \<exists>xs. map v_extension_mm (device_readings db (x_device_id s)) = map Some xs \<and>
           x_left_to_right s =
             int (count_transitions (\<lambda>p c. classify p = ''left'' \<and> classify c = ''right'') xs) \<and>
           x_right_to_left s =
             int (count_transitions (\<lambda>p c. classify p = ''right'' \<and> classify c = ''left'') xs)) \<and>
   (\<forall>d\<in>set (map v_device_id (v_platform_extension_mm db)).
      d \<notin> set (map x_device_id (side_switches db)) \<longrightarrow>
      (\<exists>xs. map v_extension_mm (device_readings db d) = map Some xs \<and>
            count_transitions (\<lambda>p c. classify p = ''left'' \<and> classify c = ''right'') xs = 0 \<and>
            count_transitions (\<lambda>p c. classify p = ''right'' \<and> classify c = ''left'') xs = 0))"
proof (intro conjI ballI impI)
  have ids: "map x_device_id (side_switches db) =
             group_keys (map sw_device_id (filter side_where (side_series db)))"
    by (simp add: side_switches_rows o_def)
  show "sorted (map x_device_id (side_switches db))" by (simp only: ids group_keys_sorted)
  show "distinct (map x_device_id (side_switches db))" by (simp only: ids group_keys_distinct)
  {
    fix d
    assume d: "d \<in> set (map v_device_id (v_platform_extension_mm db))"
      and nd: "d \<notin> set (map x_device_id (side_switches db))"
    from nd have "d \<notin> set (group_keys (map sw_device_id (filter side_where (side_series db))))"
      unfolding ids .
    with d have e: "filter side_where (side_rows db d) = []"
      by (simp only: side_switches_keys mem_Collect_eq) blast
    have "length (filter is_left_to_right (filter side_where (side_rows db d))) = 0"
      and "length (filter is_right_to_left (filter side_where (side_rows db d))) = 0"
      by (simp_all only: e filter.simps list.size)
    then have z: "length (filter is_left_to_right (side_rows db d)) = 0"
      "length (filter is_right_to_left (side_rows db d)) = 0"
      by (simp_all only: filter_implied [of is_left_to_right side_where, OF left_to_right_where]
          filter_implied [of is_right_to_left side_where, OF right_to_left_where])
    from side_rows_counts [of db d] z
    show "\<exists>xs. map v_extension_mm (device_readings db d) = map Some xs \<and>
            count_transitions (\<lambda>p c. classify p = ''left'' \<and> classify c = ''right'') xs = 0 \<and>
            count_transitions (\<lambda>p c. classify p = ''right'' \<and> classify c = ''left'') xs = 0"
      by metis
  }
next
  fix s
  assume "s \<in> set (side_switches db)"
  then obtain d where s: "s = \<lparr>x_device_id = d,
               x_left_to_right = int (length (filter is_left_to_right (side_rows db d))),
               x_right_to_left = int (length (filter is_right_to_left (side_rows db d)))\<rparr>"
    unfolding side_switches_rows by (auto simp only: set_map)
  from side_rows_counts [of db d]
  show "\<exists>xs. map v_extension_mm (device_readings db (x_device_id s)) = map Some xs \<and>
           x_left_to_right s =
             int (count_transitions (\<lambda>p c. classify p = ''left'' \<and> classify c = ''right'') xs) \<and>
           x_right_to_left s =
             int (count_transitions (\<lambda>p c. classify p = ''right'' \<and> classify c = ''left'') xs)"
    unfolding s by (simp only: side_switches_row.simps) metis
qed

lemma mixed_rollout_switches:
  "side_switches mixed_rollout = [\<lparr>x_device_id = 42, x_left_to_right = 2, x_right_to_left = 1\<rparr>]"
  by (simp add: side_switches_def side_series_def window_partitions_def window_partition_def
      group_keys_def mixed_rollout_view lag_def side_select_def side_case_def side_where_def
      is_left_to_right_def is_right_to_left_def sql_and_def sql_gt_def sql_lt_def sql_eq_def
      sql_neq_def is_not_null_def is_true_def)

theorem side_switch_counts_witness:
  "\<lparr>x_device_id = 42, x_left_to_right = 2, x_right_to_left = 1\<rparr> \<in> set (side_switches mixed_rollout) \<and>
   (\<exists>xs. map v_extension_mm (device_readings mixed_rollout 42) = map Some xs \<and>
         2 = int (count_transitions (\<lambda>p c. classify p = ''left'' \<and> classify c = ''right'') xs) \<and>
         1 = int (count_transitions (\<lambda>p c. classify p = ''right'' \<and> classify c = ''left'') xs)) \<and>
   9 \<in> set (map v_device_id (v_platform_extension_mm mixed_rollout)) \<and>
   9 \<notin> set (map x_device_id (side_switches mixed_rollout)) \<and>
   (\<exists>xs. map v_extension_mm (device_readings mixed_rollout 9) = map Some xs \<and>
         count_transitions (\<lambda>p c. classify p = ''left'' \<and> classify c = ''right'') xs = 0 \<and>
         count_transitions (\<lambda>p c. classify p = ''right'' \<and> classify c = ''left'') xs = 0)"
proof -
  have m: "\<lparr>x_device_id = 42, x_left_to_right = 2, x_right_to_left = 1\<rparr>
             \<in> set (side_switches mixed_rollout)"
    by (simp add: mixed_rollout_switches)
  have d: "9 \<in> set (map v_device_id (v_platform_extension_mm mixed_rollout))"
    by (simp add: mixed_rollout_view)
  have n: "9 \<notin> set (map x_device_id (side_switches mixed_rollout))"
    by (simp add: mixed_rollout_switches)
  note t = side_switch_counts [of mixed_rollout]
  from t have a: "\<forall>s\<in>set (side_switches mixed_rollout).
      \<exists>xs. map v_extension_mm (device_readings mixed_rollout (x_device_id s)) = map Some xs \<and>
           x_left_to_right s =
             int (count_transitions (\<lambda>p c. classify p = ''left'' \<and> classify c = ''right'') xs) \<and>
           x_right_to_left s =
             int (count_transitions (\<lambda>p c. classify p = ''right'' \<and> classify c = ''left'') xs)"
    by (elim conjE)
  from t have b: "\<forall>d\<in>set (map v_device_id (v_platform_extension_mm mixed_rollout)).
      d \<notin> set (map x_device_id (side_switches mixed_rollout)) \<longrightarrow>
      (\<exists>xs. map v_extension_mm (device_readings mixed_rollout d) = map Some xs \<and>
            count_transitions (\<lambda>p c. classify p = ''left'' \<and> classify c = ''right'') xs = 0 \<and>
            count_transitions (\<lambda>p c. classify p = ''right'' \<and> classify c = ''left'') xs = 0)"
    by (elim conjE)
  from bspec [OF a m] have a': "\<exists>xs. map v_extension_mm (device_readings mixed_rollout 42) = map Some xs \<and>
         2 = int (count_transitions (\<lambda>p c. classify p = ''left'' \<and> classify c = ''right'') xs) \<and>
         1 = int (count_transitions (\<lambda>p c. classify p = ''right'' \<and> classify c = ''left'') xs)"
    by simp
  from bspec [OF b d] n have b': "\<exists>xs. map v_extension_mm (device_readings mixed_rollout 9) = map Some xs \<and>
         count_transitions (\<lambda>p c. classify p = ''left'' \<and> classify c = ''right'') xs = 0 \<and>
         count_transitions (\<lambda>p c. classify p = ''right'' \<and> classify c = ''left'') xs = 0"
    by (rule mp)
  from m a' d n b' show ?thesis by (intro conjI)
qed

section \<open>The diagnostic join view\<close>

lemma filter_find:
  assumes "distinct (map k ys)"
  shows "filter (\<lambda>y. k y = t) ys = (case find (\<lambda>y. k y = t) ys of None \<Rightarrow> [] | Some y \<Rightarrow> [y])"
proof -
  have "filter (\<lambda>y. k y = t \<and> True) ys =
        (case find (\<lambda>y. k y = t) ys of None \<Rightarrow> [] | Some y \<Rightarrow> if True then [y] else [])"
    using assms by (rule filter_by_key)
  then show ?thesis by (simp cong: option.case_cong)
qed

lemma left_join_key:
  assumes "distinct (map k ys)"
  shows "left_join (\<lambda>x y. k y = h x) xs ys = map (\<lambda>x. (x, find (\<lambda>y. k y = h x) ys)) xs"
proof -
  have "(case filter (\<lambda>y. k y = h x) ys of [] \<Rightarrow> [(x, None)] | m # ms \<Rightarrow> map (\<lambda>y. (x, Some y)) (m # ms)) =
        [(x, find (\<lambda>y. k y = h x) ys)]" for x
    by (simp add: filter_find [OF assms] split: option.splits)
  then show ?thesis by (simp add: left_join_def)
qed

lemma collect_Inr: "collect ys = Inr rows \<longleftrightarrow> ys = map Inr rows"
proof (induction ys arbitrary: rows)
  case Nil
  then show ?case by auto
next
  case (Cons y ys)
  show ?case
  proof (cases y)
    case (Inl e)
    then show ?thesis by (cases rows) auto
  next
    case (Inr v)
    show ?thesis
    proof (cases "collect ys")
      case (Inl e)
      with Cons.IH have "ys \<noteq> map Inr vs" for vs by auto
      with Inl Inr show ?thesis by (cases rows) auto
    next
      case r: (Inr vs)
      with Cons.IH [of vs] have "ys = map Inr vs" by simp
      with r Inr show ?thesis by (cases rows) auto
    qed
  qed
qed

lemma ingest_parse_from_keys:
  assumes "uq_processed_by_raw (processed_record db)" and "ingest_error_pkey (ingest_error db)"
  shows "ingest_parse_from db =
         map (\<lambda>rr. ((rr, find (\<lambda>pr. pr_raw_data_id pr = rr_id rr) (processed_record db)),
                    find (\<lambda>ie. ie_raw_data_id ie = rr_id rr) (ingest_error db)))
             (raw_record db)"
proof -
  have 1: "left_join (\<lambda>rr pr. pr_raw_data_id pr = rr_id rr) (raw_record db) (processed_record db) =
           map (\<lambda>rr. (rr, find (\<lambda>pr. pr_raw_data_id pr = rr_id rr) (processed_record db))) (raw_record db)"
    using assms(1) unfolding uq_processed_by_raw_def by (rule left_join_key)
  have 2: "left_join (\<lambda>j ie. ie_raw_data_id ie = rr_id (fst j)) js (ingest_error db) =
           map (\<lambda>j. (j, find (\<lambda>ie. ie_raw_data_id ie = rr_id (fst j)) (ingest_error db))) js" for js
    using assms(2) unfolding ingest_error_pkey_def by (rule left_join_key)
  show ?thesis by (simp add: ingest_parse_from_def 1 2 o_def)
qed

lemma select_rows_agree:
  assumes "map (\<lambda>r. case ip_device_id r of
                      Inl e \<Rightarrow> Inl e
                    | Inr d \<Rightarrow> Inr \<lparr>q_raw_data_id = ip_raw_data_id r, q_device_id = d,
                                   q_parse_ok = ip_parse_ok r, q_error = ip_error r\<rparr>) rs =
           map Inr rows"
  shows "map (\<lambda>q. (q_raw_data_id q, q_parse_ok q, q_error q)) rows =
         map (\<lambda>r. (ip_raw_data_id r, ip_parse_ok r, ip_error r)) rs"
  using assms
proof (induction rs arbitrary: rows)
  case Nil
  then show ?case by simp
next
  case (Cons r rs)
  then obtain q qs where rows: "rows = q # qs" by (cases rows) auto
  with Cons.prems have q: "(case ip_device_id r of
                      Inl e \<Rightarrow> Inl e
                    | Inr d \<Rightarrow> Inr \<lparr>q_raw_data_id = ip_raw_data_id r, q_device_id = d,
                                   q_parse_ok = ip_parse_ok r, q_error = ip_error r\<rparr>) = Inr q"
    and rest: "map (\<lambda>r. case ip_device_id r of
                      Inl e \<Rightarrow> Inl e
                    | Inr d \<Rightarrow> Inr \<lparr>q_raw_data_id = ip_raw_data_id r, q_device_id = d,
                                   q_parse_ok = ip_parse_ok r, q_error = ip_error r\<rparr>) rs =
           map Inr qs"
    by simp_all
  from q have "(q_raw_data_id q, q_parse_ok q, q_error q) = (ip_raw_data_id r, ip_parse_ok r, ip_error r)"
    by (cases "ip_device_id r") auto
  with Cons.IH [OF rest] show ?case by (simp add: rows)
qed

lemma ingest_parse_select_fields:
  "ip_raw_data_id (ingest_parse_select ((rr, p), e)) = rr_id rr"
  "ip_parse_ok (ingest_parse_select ((rr, p), e)) = (p \<noteq> None)"
  "ip_error (ingest_parse_select ((rr, p), e)) = map_option ie_error e"
  by (simp_all add: ingest_parse_select_def Let_def)

text \<open>
  C7. Diagnostic join view. With the unique index \<open>uq_processed_by_raw\<close> and the primary
  key of \<open>ingest_error\<close>, the view has, in order, one row per \<open>raw_record\<close> row;
  \<open>parse_ok\<close> is true exactly when a processed row references that raw record; \<open>error\<close>
  is the reason of the \<open>ingest_error\<close> row of that raw record when there is one and NULL
  otherwise. A query that reads all columns and returns rows returns these rows.
\<close>

theorem ingest_parse_rows:
  assumes "uq_processed_by_raw (processed_record db)" and "ingest_error_pkey (ingest_error db)"
  shows "map ip_raw_data_id (ingest_parse db) = map rr_id (raw_record db) \<and>
         (\<forall>row\<in>set (ingest_parse db).
            (ip_parse_ok row \<longleftrightarrow>
               (\<exists>pr\<in>set (processed_record db). pr_raw_data_id pr = ip_raw_data_id row)) \<and>
            ip_error row =
              map_option ie_error (find (\<lambda>ie. ie_raw_data_id ie = ip_raw_data_id row) (ingest_error db))) \<and>
         (\<forall>rows. select_ingest_parse db = Inr rows \<longrightarrow>
            map (\<lambda>q. (q_raw_data_id q, q_parse_ok q, q_error q)) rows =
            map (\<lambda>r. (ip_raw_data_id r, ip_parse_ok r, ip_error r)) (ingest_parse db))"
proof (intro conjI ballI allI impI)
  let ?p = "\<lambda>i. find (\<lambda>pr. pr_raw_data_id pr = i) (processed_record db)"
  let ?e = "\<lambda>i. find (\<lambda>ie. ie_raw_data_id ie = i) (ingest_error db)"
  have v: "ingest_parse db =
           map (\<lambda>rr. ingest_parse_select ((rr, ?p (rr_id rr)), ?e (rr_id rr))) (raw_record db)"
    by (simp add: ingest_parse_def ingest_parse_from_keys [OF assms] o_def)
  show "map ip_raw_data_id (ingest_parse db) = map rr_id (raw_record db)"
    by (simp add: v o_def ingest_parse_select_fields)
  {
    fix row
    assume "row \<in> set (ingest_parse db)"
    then obtain rr where row: "row = ingest_parse_select ((rr, ?p (rr_id rr)), ?e (rr_id rr))"
      unfolding v by auto
    show "ip_parse_ok row \<longleftrightarrow>
            (\<exists>pr\<in>set (processed_record db). pr_raw_data_id pr = ip_raw_data_id row)"
      by (auto simp: row ingest_parse_select_fields find_None_iff simp del: not_None_eq)
    show "ip_error row =
            map_option ie_error (find (\<lambda>ie. ie_raw_data_id ie = ip_raw_data_id row) (ingest_error db))"
      by (simp add: row ingest_parse_select_fields)
  }
  {
    fix rows
    assume "select_ingest_parse db = Inr rows"
    then have "map (\<lambda>r. case ip_device_id r of
                          Inl e \<Rightarrow> Inl e
                        | Inr d \<Rightarrow> Inr \<lparr>q_raw_data_id = ip_raw_data_id r, q_device_id = d,
                                       q_parse_ok = ip_parse_ok r, q_error = ip_error r\<rparr>)
                  (ingest_parse db) = map Inr rows"
      by (simp add: select_ingest_parse_def collect_Inr)
    then show "map (\<lambda>q. (q_raw_data_id q, q_parse_ok q, q_error q)) rows =
               map (\<lambda>r. (ip_raw_data_id r, ip_parse_ok r, ip_error r)) (ingest_parse db)"
      by (rule select_rows_agree)
  }
qed

lemma replayed_processed:
  "processed_record replayed =
     [\<lparr>pr_id = 1, pr_device_id = 42, pr_raw_data_id = 1, pr_record_time = 10, pr_type = 1, pr_value = 100\<rparr>]"
  by (simp add: replayed_def replay_def run_simps)

lemma replayed_errors:
  "ingest_error replayed =
     [\<lparr>ie_raw_data_id = 2, ie_error = ''timestamp: field required'', ie_created_at = 21\<rparr>]"
  by (simp add: replayed_def replay_def run_simps)

lemma replayed_raw: "map rr_id (raw_record replayed) = [1, 2, 3]"
  by (simp add: replayed_def replay_def run_simps)

lemma replayed_parse:
  "ingest_parse replayed =
     [\<lparr>ip_raw_data_id = 1, ip_device_id = Inr (Some 42), ip_parse_ok = True, ip_error = None\<rparr>,
      \<lparr>ip_raw_data_id = 2, ip_device_id = Inr (Some 42), ip_parse_ok = False,
       ip_error = Some ''timestamp: field required''\<rparr>,
      \<lparr>ip_raw_data_id = 3, ip_device_id = Inr (Some 42), ip_parse_ok = False, ip_error = None\<rparr>]"
  by (simp add: replayed_def replay_def run_simps ingest_parse_def ingest_parse_from_def left_join_def
      ingest_parse_select_def cast_text_int_def jsonb_object_field_text_def int4in_def
      scan_number_def digit_value_def isspace_def numeric_out_def digit_char_def)

lemma replayed_select:
  "select_ingest_parse replayed =
     Inr [\<lparr>q_raw_data_id = 1, q_device_id = Some 42, q_parse_ok = True, q_error = None\<rparr>,
          \<lparr>q_raw_data_id = 2, q_device_id = Some 42, q_parse_ok = False,
           q_error = Some ''timestamp: field required''\<rparr>,
          \<lparr>q_raw_data_id = 3, q_device_id = Some 42, q_parse_ok = False, q_error = None\<rparr>]"
  by (simp add: select_ingest_parse_def replayed_parse)

theorem ingest_parse_rows_witness:
  "uq_processed_by_raw (processed_record replayed) \<and>
   ingest_error_pkey (ingest_error replayed) \<and>
   map ip_raw_data_id (ingest_parse replayed) = [1, 2, 3] \<and>
   map rr_id (raw_record replayed) = [1, 2, 3] \<and>
   \<lparr>ip_raw_data_id = 2, ip_device_id = Inr (Some 42), ip_parse_ok = False,
    ip_error = Some ''timestamp: field required''\<rparr> \<in> set (ingest_parse replayed) \<and>
   map_option ie_error (find (\<lambda>ie. ie_raw_data_id ie = 2) (ingest_error replayed)) =
     Some ''timestamp: field required'' \<and>
   select_ingest_parse replayed =
     Inr [\<lparr>q_raw_data_id = 1, q_device_id = Some 42, q_parse_ok = True, q_error = None\<rparr>,
          \<lparr>q_raw_data_id = 2, q_device_id = Some 42, q_parse_ok = False,
           q_error = Some ''timestamp: field required''\<rparr>,
          \<lparr>q_raw_data_id = 3, q_device_id = Some 42, q_parse_ok = False, q_error = None\<rparr>] \<and>
   map (\<lambda>r. (ip_raw_data_id r, ip_parse_ok r, ip_error r)) (ingest_parse replayed) =
     [(1, True, None), (2, False, Some ''timestamp: field required''), (3, False, None)]"
proof -
  let ?row = "\<lparr>ip_raw_data_id = 2, ip_device_id = Inr (Some 42), ip_parse_ok = False,
    ip_error = Some ''timestamp: field required''\<rparr>"
  let ?rows = "[\<lparr>q_raw_data_id = 1, q_device_id = Some 42, q_parse_ok = True, q_error = None\<rparr>,
          \<lparr>q_raw_data_id = 2, q_device_id = Some 42, q_parse_ok = False,
           q_error = Some ''timestamp: field required''\<rparr>,
          \<lparr>q_raw_data_id = 3, q_device_id = Some 42, q_parse_ok = False, q_error = None\<rparr>]"
  have a: "uq_processed_by_raw (processed_record replayed)"
    by (simp add: uq_processed_by_raw_def replayed_processed)
  have b: "ingest_error_pkey (ingest_error replayed)"
    by (simp add: ingest_error_pkey_def replayed_errors)
  note t = ingest_parse_rows [OF a b]
  have c: "map ip_raw_data_id (ingest_parse replayed) = [1, 2, 3]"
    by (simp add: replayed_parse)
  from t c have ids: "map rr_id (raw_record replayed) = [1, 2, 3]" by simp
  have m: "?row \<in> set (ingest_parse replayed)" by (simp add: replayed_parse)
  from t have "\<forall>row\<in>set (ingest_parse replayed).
      (ip_parse_ok row \<longleftrightarrow>
         (\<exists>pr\<in>set (processed_record replayed). pr_raw_data_id pr = ip_raw_data_id row)) \<and>
      ip_error row =
        map_option ie_error (find (\<lambda>ie. ie_raw_data_id ie = ip_raw_data_id row) (ingest_error replayed))"
    by (elim conjE)
  from bspec [OF this m]
  have e: "map_option ie_error (find (\<lambda>ie. ie_raw_data_id ie = 2) (ingest_error replayed)) =
     Some ''timestamp: field required''"
    by simp
  have s: "select_ingest_parse replayed = Inr ?rows" by (rule replayed_select)
  from t have "\<forall>rows. select_ingest_parse replayed = Inr rows \<longrightarrow>
            map (\<lambda>q. (q_raw_data_id q, q_parse_ok q, q_error q)) rows =
            map (\<lambda>r. (ip_raw_data_id r, ip_parse_ok r, ip_error r)) (ingest_parse replayed)"
    by (elim conjE)
  with s have "map (\<lambda>q. (q_raw_data_id q, q_parse_ok q, q_error q)) ?rows =
            map (\<lambda>r. (ip_raw_data_id r, ip_parse_ok r, ip_error r)) (ingest_parse replayed)"
    by blast
  then have f: "map (\<lambda>r. (ip_raw_data_id r, ip_parse_ok r, ip_error r)) (ingest_parse replayed) =
     [(1, True, None), (2, False, Some ''timestamp: field required''), (3, False, None)]"
    by simp
  from a b c ids m e s f show ?thesis by (intro conjI)
qed

text \<open>
  C10. The \<open>device_id\<close> column of a raw record without processed row is the integer cast
  of the text of the payload's \<open>device_id\<close> member, and the cast raises when that text is
  not an integer: on the quarantined payload \<open>{"device_id": "abc", ...}\<close> the column
  is an error, and the query that reads the view fails with
  \<open>invalid input syntax for type integer: "abc"\<close> instead of returning rows.
\<close>

theorem ingest_parse_cast_fails:
  "map ip_device_id (ingest_parse malformed_device) = [Inl (Invalid_Text_Representation ''abc'')] \<and>
   select_ingest_parse malformed_device = Inl (Invalid_Text_Representation ''abc'')"
  by (simp add: malformed_device_def init_db_def select_ingest_parse_def ingest_parse_def
      ingest_parse_from_def left_join_def ingest_parse_select_def cast_text_int_def
      jsonb_object_field_text_def int4in_def scan_number_def digit_value_def isspace_def)

text \<open>
  Where no processed row references the raw record, the column is the cast of the text of
  the payload's top-level \<open>device_id\<close> member.
\<close>

lemma unparsed_device_id:
  assumes "uq_processed_by_raw (processed_record db)" and "ingest_error_pkey (ingest_error db)"
    and "row \<in> set (ingest_parse db)" and "\<not> ip_parse_ok row"
  shows "\<exists>rr\<in>set (raw_record db). rr_id rr = ip_raw_data_id row \<and>
           ip_device_id row =
             cast_text_int (jsonb_object_field_text (rr_raw_message rr) ''device_id'')"
proof -
  from assms(3) obtain rr where rr: "rr \<in> set (raw_record db)"
    and row: "row = ingest_parse_select
                ((rr, find (\<lambda>pr. pr_raw_data_id pr = rr_id rr) (processed_record db)),
                 find (\<lambda>ie. ie_raw_data_id ie = rr_id rr) (ingest_error db))"
    by (auto simp: ingest_parse_def ingest_parse_from_keys [OF assms(1,2)])
  from assms(4) have "find (\<lambda>pr. pr_raw_data_id pr = rr_id rr) (processed_record db) = None"
    by (simp add: row ingest_parse_select_fields)
  then have "ip_device_id row =
             cast_text_int (jsonb_object_field_text (rr_raw_message rr) ''device_id'')"
    by (simp add: row ingest_parse_select_def Let_def)
  with rr show ?thesis by (auto simp: row ingest_parse_select_fields)
qed

text \<open>The write path reaches this state when the payload is rejected.\<close>

lemma malformed_device_reached:
  "run init_db
     [(JObject [(''device_id'', JString ''abc''), (''event_type'', JString ''platform_extension_mm''),
                (''value'', JNumber 5 0), (''timestamp'', JString ''2024-01-01T00:00:00Z'')],
       11, Rejected ''device_id: not a valid device'')] = malformed_device"
  by (simp add: malformed_device_def run_simps)

section \<open>Reads do not write\<close>

lemma view_reads:
  assumes "processed_record db = processed_record db'" and "record_type db = record_type db'"
  shows "v_platform_extension_mm db = v_platform_extension_mm db'"
  by (simp add: v_platform_extension_mm_def assms)

lemma extension_facts_reads:
  assumes "processed_record db = processed_record db'" and "record_type db = record_type db'"
  shows "extension_facts db = extension_facts db'"
  by (simp add: extension_facts_def assms)

text \<open>
  C8. Read-time conversion never mutates storage. The Unification View and the metrics
  and queries derived from it are functions of the \<open>processed_record\<close> and \<open>record_type\<close>
  tables alone: two database states that agree on these two tables give the same rows.
  Serving a request leaves the database state as it was, and with it every stored fact
  and its \<open>value\<close>.
\<close>

theorem read_time_conversion_is_pure:
  assumes "processed_record db = processed_record db'" and "record_type db = record_type db'"
  shows "v_platform_extension_mm db = v_platform_extension_mm db' \<and>
         metric_avg_extension_mm db = metric_avg_extension_mm db' \<and>
         metric_extension_vs_retraction db = metric_extension_vs_retraction db' \<and>
         side_switches db = side_switches db' \<and>
         unified_recent db = unified_recent db' \<and>
         fst (handler q db) = db \<and>
         fst (avg_extension_mm_handler db) = db \<and>
         map pr_value (processed_record (fst (handler q db))) = map pr_value (processed_record db)"
proof -
  note v = view_reads [OF assms]
  have h: "fst (handler q db) = db"
    by (simp add: handler_def Let_def)
  have a: "fst (avg_extension_mm_handler db) = db"
    by (simp add: avg_extension_mm_handler_def split: sum.splits)
  show ?thesis
    by (simp add: h a v metric_avg_extension_mm_def metric_extension_vs_retraction_def series_def
        side_switches_def side_series_def unified_recent_def extension_facts_reads [OF assms])
qed

theorem read_time_conversion_is_pure_witness:
  "processed_record mixed_rollout = processed_record (mixed_rollout\<lparr>raw_record := [], ingest_error := []\<rparr>) \<and>
   record_type mixed_rollout = record_type (mixed_rollout\<lparr>raw_record := [], ingest_error := []\<rparr>) \<and>
   v_platform_extension_mm mixed_rollout =
     v_platform_extension_mm (mixed_rollout\<lparr>raw_record := [], ingest_error := []\<rparr>) \<and>
   fst (handler (Single ''unified_recent'') mixed_rollout) = mixed_rollout \<and>
   map pr_value (processed_record (fst (handler (Single ''unified_recent'') mixed_rollout))) =
     [100, 5, - 3, 50, 60, 0, 4, - 1, 2]"
proof -
  have a: "processed_record mixed_rollout =
           processed_record (mixed_rollout\<lparr>raw_record := [], ingest_error := []\<rparr>)" by simp
  have b: "record_type mixed_rollout =
           record_type (mixed_rollout\<lparr>raw_record := [], ingest_error := []\<rparr>)" by simp
  note t = read_time_conversion_is_pure [OF a b, of "Single ''unified_recent''"]
  from t have v: "v_platform_extension_mm mixed_rollout =
     v_platform_extension_mm (mixed_rollout\<lparr>raw_record := [], ingest_error := []\<rparr>)"
    by (rule conjunct1)
  from t have h: "fst (handler (Single ''unified_recent'') mixed_rollout) = mixed_rollout"
    by (elim conjE)
  from t have "map pr_value (processed_record (fst (handler (Single ''unified_recent'') mixed_rollout))) =
     map pr_value (processed_record mixed_rollout)"
    by (elim conjE)
  then have p: "map pr_value (processed_record (fst (handler (Single ''unified_recent'') mixed_rollout))) =
     [100, 5, - 3, 50, 60, 0, 4, - 1, 2]"
    by (simp add: mixed_rollout_processed)
  from a b v h p show ?thesis by (intro conjI)
qed

section \<open>The write path keeps its invariants\<close>

lemma find_append:
  "find P (xs @ ys) = (case find P xs of None \<Rightarrow> find P ys | Some x \<Rightarrow> Some x)"
  by (induction xs) simp_all

lemma find_by_key:
  "distinct (map k xs) \<Longrightarrow> x \<in> set xs \<Longrightarrow> find (\<lambda>y. k y = k x) xs = Some x"
  by (induction xs) (auto simp: image_iff)

lemma type_name_existing:
  assumes "record_type_pkey (record_type db)" and "rt \<in> set (record_type db)"
  shows "type_name db (rt_id rt) = Some (rt_name rt)"
  using find_by_key [of rt_id "record_type db" rt] assms
  by (simp add: type_name_def record_type_pkey_def)

lemma type_name_inj:
  assumes "uq_record_type_name (record_type db)"
    and "type_name db a = Some n" and "type_name db b = Some n"
  shows "a = b"
proof -
  from type_name_joins [OF assms(2)] obtain r1
    where r1: "r1 \<in> set (record_type db)" "rt_id r1 = a" "rt_name r1 = n" by blast
  from type_name_joins [OF assms(3)] obtain r2
    where r2: "r2 \<in> set (record_type db)" "rt_id r2 = b" "rt_name r2 = n" by blast
  from assms(1) have "inj_on rt_name (set (record_type db))"
    by (simp add: uq_record_type_name_def distinct_map)
  with r1 r2 have "r1 = r2" by (auto dest: inj_onD)
  with r1 r2 show ?thesis by simp
qed

lemma type_name_mono:
  assumes "type_name db t = Some n" and "record_type db' = record_type db @ rts"
  shows "type_name db' t = Some n"
  using assms by (auto simp: type_name_def find_append split: option.splits)

lemma stores_event_mono:
  assumes "stores_event db dev name t v p" and "record_type db' = record_type db @ rts"
  shows "stores_event db' dev name t v p"
  using assms type_name_mono [of db "pr_type p" name db' rts] by (simp add: stores_event_def)

lemma length_filter_unique:
  assumes "distinct (map k xs)" and "\<And>x. x \<in> set xs \<Longrightarrow> P x \<Longrightarrow> k x = c"
    and "\<exists>x\<in>set xs. P x"
  shows "length (filter P xs) = 1"
  using assms
proof (induction xs)
  case Nil
  then show ?case by simp
next
  case (Cons x xs)
  show ?case
  proof (cases "P x")
    case True
    with Cons.prems(2) have kx: "k x = c" by simp
    have "filter P xs = []"
    proof (rule ccontr)
      assume "filter P xs \<noteq> []"
      then obtain y where y: "y \<in> set xs" "P y" by (auto simp: filter_empty_conv)
      with Cons.prems(2) have "k y = c" by simp
      with kx y(1) Cons.prems(1) show False by (force simp: image_iff)
    qed
    with True show ?thesis by simp
  next
    case False
    with Cons.prems(3) have "\<exists>x\<in>set xs. P x" by auto
    with Cons.IH Cons.prems(1,2) have "length (filter P xs) = 1" by simp
    with False show ?thesis by simp
  qed
qed


text \<open>The effect of processing one submission, case by case.\<close>

lemma process_rejected:
  assumes "ledger_inv db"
  shows "fst (process_one db (payload, now, Rejected reason)) =
         db\<lparr>raw_record := raw_record db @
               [\<lparr>rr_id = raw_record_id_seq db, rr_raw_message = payload, rr_arrival_time = now\<rparr>],
            raw_record_id_seq := raw_record_id_seq db + 1,
            ingest_error := ingest_error db @
               [\<lparr>ie_raw_data_id = raw_record_id_seq db, ie_error = reason, ie_created_at = now\<rparr>]\<rparr>"
proof -
  from assms have "\<forall>e\<in>set (ingest_error db). ie_raw_data_id e \<noteq> raw_record_id_seq db"
    by (auto simp: ledger_inv_def)
  then have "\<not> list_ex (\<lambda>e. ie_raw_data_id e = raw_record_id_seq db) (ingest_error db)"
    by (simp add: list_ex_iff)
  then show ?thesis
    by (simp add: process_one_def insert_raw_def upsert_ingest_error_def Let_def)
qed

text \<open>The tables after an accepted event: the type may be new, the fact may be new.\<close>

lemma process_accepted:
  fixes db :: database and payload now dev name t v
  assumes "ledger_inv db"
  defines "db' \<equiv> fst (process_one db (payload, now, Accepted dev name t v))"
  shows "\<exists>ty rts prs.
           record_type db' = record_type db @ rts \<and>
           (rts = [] \<or> rts = [\<lparr>rt_id = record_type_id_seq db, rt_name = name, rt_version_id = None\<rparr>]) \<and>
           record_type_id_seq db' = record_type_id_seq db + int (length rts) \<and>
           (rts \<noteq> [] \<longrightarrow> name \<notin> set (map rt_name (record_type db))) \<and>
           type_name db' ty = Some name \<and>
           processed_record db' = processed_record db @ prs \<and>
           (prs = [\<lparr>pr_id = processed_record_id_seq db, pr_device_id = dev,
                    pr_raw_data_id = raw_record_id_seq db, pr_record_time = t, pr_type = ty,
                    pr_value = v\<rparr>] \<and>
              (dev, ty, t, v) \<notin> set (map event_key (processed_record db)) \<or>
            prs = [] \<and> (dev, ty, t, v) \<in> set (map event_key (processed_record db))) \<and>
           ingest_error db' = ingest_error db \<and>
           raw_record db' = raw_record db @
             [\<lparr>rr_id = raw_record_id_seq db, rr_raw_message = payload, rr_arrival_time = now\<rparr>] \<and>
           raw_record_id_seq db' = raw_record_id_seq db + 1"
proof -
  let ?db1 = "fst (insert_raw db payload now)"
  let ?rid = "raw_record_id_seq db"
  have db1: "record_type ?db1 = record_type db" "processed_record ?db1 = processed_record db"
    "ingest_error ?db1 = ingest_error db" "record_type_id_seq ?db1 = record_type_id_seq db"
    "raw_record_id_seq ?db1 = ?rid + 1" "processed_record_id_seq ?db1 = processed_record_id_seq db"
    "raw_record ?db1 = raw_record db @
       [\<lparr>rr_id = ?rid, rr_raw_message = payload, rr_arrival_time = now\<rparr>]"
    "snd (insert_raw db payload now) = ?rid"
    by (simp_all add: insert_raw_def Let_def)
  let ?db2 = "fst (resolve_record_type ?db1 name)"
  let ?ty = "snd (resolve_record_type ?db1 name)"
  from assms(1) have pk: "record_type_pkey (record_type db)"
    and below: "\<forall>rt\<in>set (record_type db). rt_id rt < record_type_id_seq db"
    by (simp_all add: ledger_inv_def)
  have db2: "\<exists>rts. record_type ?db2 = record_type db @ rts \<and>
           (rts = [] \<or> rts = [\<lparr>rt_id = record_type_id_seq db, rt_name = name, rt_version_id = None\<rparr>]) \<and>
           record_type_id_seq ?db2 = record_type_id_seq db + int (length rts) \<and>
           (rts \<noteq> [] \<longrightarrow> name \<notin> set (map rt_name (record_type db))) \<and>
           type_name ?db2 ?ty = Some name"
  proof (cases "find (\<lambda>rt. rt_name rt = name) (record_type db)")
    case None
    then have fresh: "name \<notin> set (map rt_name (record_type db))"
      by (auto simp: find_None_iff)
    from below have "find (\<lambda>rt. rt_id rt = record_type_id_seq db) (record_type db) = None"
      by (auto simp: find_None_iff)
    then have "type_name ?db2 ?ty = Some name"
      using None by (simp add: resolve_record_type_def db1 Let_def type_name_def find_append)
    with None fresh show ?thesis
      by (intro exI [of _ "[\<lparr>rt_id = record_type_id_seq db, rt_name = name, rt_version_id = None\<rparr>]"])
         (simp add: resolve_record_type_def db1 Let_def)
  next
    case (Some rt)
    then have rt: "rt \<in> set (record_type db)" "rt_name rt = name"
      by (auto simp: find_Some_iff)
    from Some have r: "?db2 = ?db1" "?ty = rt_id rt"
      by (simp_all add: resolve_record_type_def db1)
    have "type_name ?db1 (rt_id rt) = Some (rt_name rt)"
      by (rule type_name_existing) (simp_all add: db1 pk rt)
    with rt(2) show ?thesis
      by (intro exI [of _ "[]"]) (simp add: r db1)
  qed
  then obtain rts where rts: "record_type ?db2 = record_type db @ rts"
    "rts = [] \<or> rts = [\<lparr>rt_id = record_type_id_seq db, rt_name = name, rt_version_id = None\<rparr>]"
    "record_type_id_seq ?db2 = record_type_id_seq db + int (length rts)"
    "rts \<noteq> [] \<longrightarrow> name \<notin> set (map rt_name (record_type db))"
    "type_name ?db2 ?ty = Some name"
    by blast
  have db2': "processed_record ?db2 = processed_record db" "ingest_error ?db2 = ingest_error db"
    "raw_record ?db2 = raw_record ?db1" "raw_record_id_seq ?db2 = ?rid + 1"
    "processed_record_id_seq ?db2 = processed_record_id_seq db"
    by (simp_all add: resolve_record_type_def db1 Let_def split: option.splits)
  let ?db3 = "fst (insert_processed ?db2 dev ?rid t ?ty v)"
  have d: "db' = ?db3"
    by (simp add: db'_def process_one_def Let_def db1)
  from assms(1) have "\<forall>p\<in>set (processed_record db). pr_raw_data_id p \<noteq> ?rid"
    by (auto simp: ledger_inv_def)
  then have conflict: "list_ex (\<lambda>p. pr_raw_data_id p = ?rid \<or>
                 event_key p = event_key \<lparr>pr_id = processed_record_id_seq db, pr_device_id = dev,
                    pr_raw_data_id = ?rid, pr_record_time = t, pr_type = ?ty, pr_value = v\<rparr>)
               (processed_record db) \<longleftrightarrow>
             (dev, ?ty, t, v) \<in> set (map event_key (processed_record db))"
    by (auto simp: list_ex_iff event_key_def)
  have tn: "type_name ?db3 ?ty = Some name"
    using rts(5) by (simp add: type_name_def insert_processed_def Let_def)
  show ?thesis
  proof (cases "(dev, ?ty, t, v) \<in> set (map event_key (processed_record db))")
    case True
    with conflict have "?db3 = ?db2\<lparr>processed_record_id_seq := processed_record_id_seq db + 1\<rparr>"
      by (simp add: insert_processed_def Let_def db2')
    with True rts tn show ?thesis
      unfolding d
      by (intro exI [of _ ?ty] exI [of _ rts] exI [of _ "[]"]) (simp add: db2' db1)
  next
    case False
    with conflict have "?db3 = ?db2\<lparr>processed_record_id_seq := processed_record_id_seq db + 1,
        processed_record := processed_record db @
          [\<lparr>pr_id = processed_record_id_seq db, pr_device_id = dev,
            pr_raw_data_id = ?rid, pr_record_time = t, pr_type = ?ty, pr_value = v\<rparr>]\<rparr>"
      by (simp add: insert_processed_def Let_def db2')
    with False rts tn show ?thesis
      unfolding d
      by (intro exI [of _ ?ty] exI [of _ rts]
            exI [of _ "[\<lparr>pr_id = processed_record_id_seq db, pr_device_id = dev,
            pr_raw_data_id = ?rid, pr_record_time = t, pr_type = ?ty, pr_value = v\<rparr>]"])
         (simp add: db2' db1)
  qed
qed


lemma process_summary:
  fixes db :: database and x :: submission
  assumes "ledger_inv db"
  defines "db' \<equiv> fst (process_one db x)"
  shows "\<exists>rts prs ies.
           record_type db' = record_type db @ rts \<and>
           processed_record db' = processed_record db @ prs \<and>
           (\<forall>p\<in>set prs. pr_raw_data_id p = raw_record_id_seq db) \<and>
           ingest_error db' = ingest_error db @ ies \<and>
           (\<forall>e\<in>set ies. ie_raw_data_id e = raw_record_id_seq db) \<and>
           raw_record_id_seq db' = raw_record_id_seq db + 1 \<and>
           map rr_id (raw_record db') = map rr_id (raw_record db) @ [raw_record_id_seq db]"
proof -
  obtain payload now up where x: "x = (payload, now, up)" by (cases x) auto
  show ?thesis
  proof (cases up)
    case (Rejected reason)
    have "db' = db\<lparr>raw_record := raw_record db @
               [\<lparr>rr_id = raw_record_id_seq db, rr_raw_message = payload, rr_arrival_time = now\<rparr>],
            raw_record_id_seq := raw_record_id_seq db + 1,
            ingest_error := ingest_error db @
               [\<lparr>ie_raw_data_id = raw_record_id_seq db, ie_error = reason, ie_created_at = now\<rparr>]\<rparr>"
      unfolding db'_def x Rejected by (rule process_rejected [OF assms(1)])
    then show ?thesis
      by (intro exI [of _ "[]"]
            exI [of _ "[\<lparr>ie_raw_data_id = raw_record_id_seq db, ie_error = reason, ie_created_at = now\<rparr>]"])
         simp
  next
    case (Accepted dev name t v)
    from process_accepted [OF assms(1), of payload now dev name t v]
    obtain ty rts prs where
      "record_type db' = record_type db @ rts"
      "processed_record db' = processed_record db @ prs"
      "prs = [\<lparr>pr_id = processed_record_id_seq db, pr_device_id = dev,
                    pr_raw_data_id = raw_record_id_seq db, pr_record_time = t, pr_type = ty,
                    pr_value = v\<rparr>] \<and>
              (dev, ty, t, v) \<notin> set (map event_key (processed_record db)) \<or>
            prs = [] \<and> (dev, ty, t, v) \<in> set (map event_key (processed_record db))"
      "ingest_error db' = ingest_error db"
      "raw_record db' = raw_record db @
             [\<lparr>rr_id = raw_record_id_seq db, rr_raw_message = payload, rr_arrival_time = now\<rparr>]"
      "raw_record_id_seq db' = raw_record_id_seq db + 1"
      unfolding db'_def x Accepted by blast
    then show ?thesis
      by (intro exI [of _ rts] exI [of _ prs] exI [of _ "[]"]) auto
  qed
qed

lemma ledger_inv_init: "ledger_inv init_db"
  by (simp add: ledger_inv_def init_db_def uq_processed_by_raw_def uq_processed_event_def
      ingest_error_pkey_def record_type_pkey_def uq_record_type_name_def)

lemma ledger_inv_step:
  assumes "ledger_inv db"
  shows "ledger_inv (fst (process_one db x))"
proof -
  obtain payload now up where x: "x = (payload, now, up)" by (cases x) auto
  show ?thesis
  proof (cases up)
    case (Rejected reason)
    from assms have "raw_record_id_seq db \<notin> ie_raw_data_id ` set (ingest_error db)"
      by (auto simp: ledger_inv_def)
    with assms show ?thesis
      unfolding x Rejected process_rejected [OF assms]
      by (auto simp: ledger_inv_def ingest_error_pkey_def)
  next
    case (Accepted dev name t v)
    let ?db' = "fst (process_one db (payload, now, Accepted dev name t v))"
    from process_accepted [OF assms, of payload now dev name t v]
    obtain ty rts prs where s:
      "record_type ?db' = record_type db @ rts"
      "rts = [] \<or> rts = [\<lparr>rt_id = record_type_id_seq db, rt_name = name, rt_version_id = None\<rparr>]"
      "record_type_id_seq ?db' = record_type_id_seq db + int (length rts)"
      "rts \<noteq> [] \<longrightarrow> name \<notin> set (map rt_name (record_type db))"
      "processed_record ?db' = processed_record db @ prs"
      "prs = [\<lparr>pr_id = processed_record_id_seq db, pr_device_id = dev,
                    pr_raw_data_id = raw_record_id_seq db, pr_record_time = t, pr_type = ty,
                    pr_value = v\<rparr>] \<and>
              (dev, ty, t, v) \<notin> set (map event_key (processed_record db)) \<or>
            prs = [] \<and> (dev, ty, t, v) \<in> set (map event_key (processed_record db))"
      "ingest_error ?db' = ingest_error db"
      "raw_record_id_seq ?db' = raw_record_id_seq db + 1"
      by blast
    from assms have inv:
      "\<forall>p\<in>set (processed_record db). pr_raw_data_id p < raw_record_id_seq db"
      "\<forall>e\<in>set (ingest_error db). ie_raw_data_id e < raw_record_id_seq db"
      "distinct (map pr_raw_data_id (processed_record db))"
      "distinct (map event_key (processed_record db))"
      "distinct (map ie_raw_data_id (ingest_error db))"
      "distinct (map rt_id (record_type db))"
      "distinct (map rt_name (record_type db))"
      "\<forall>rt\<in>set (record_type db). rt_id rt < record_type_id_seq db"
      by (simp_all add: ledger_inv_def uq_processed_by_raw_def uq_processed_event_def
          ingest_error_pkey_def record_type_pkey_def uq_record_type_name_def)
    have 1: "\<forall>p\<in>set (processed_record ?db'). pr_raw_data_id p < raw_record_id_seq ?db'"
      using inv(1) s(5,6,8) by auto
    have 2: "\<forall>e\<in>set (ingest_error ?db'). ie_raw_data_id e < raw_record_id_seq ?db'"
      using inv(2) s(7,8) by auto
    have 3: "distinct (map pr_raw_data_id (processed_record ?db'))"
      using inv(1,3) s(5,6) by (auto simp: image_iff)
    have 4: "distinct (map event_key (processed_record ?db'))"
      using inv(4) s(5,6) by (auto simp: event_key_def)
    have 5: "distinct (map ie_raw_data_id (ingest_error ?db'))"
      using inv(5) s(7) by simp
    have 6: "distinct (map rt_id (record_type ?db'))"
      using inv(6,8) s(1,2) by (auto simp: image_iff)
    have 7: "distinct (map rt_name (record_type ?db'))"
      using inv(7) s(1,2,4) by auto
    have 8: "\<forall>rt\<in>set (record_type ?db'). rt_id rt < record_type_id_seq ?db'"
      using inv(8) s(1,2,3) by auto
    from 1 2 3 4 5 6 7 8 show ?thesis
      unfolding x Accepted
      by (simp add: ledger_inv_def uq_processed_by_raw_def uq_processed_event_def
          ingest_error_pkey_def record_type_pkey_def uq_record_type_name_def)
  qed
qed

lemma run_snoc: "run db (xs @ [x]) = fst (process_one (run db xs) x)"
  by (simp add: run_def)

lemma ledger_inv_run: "ledger_inv (run init_db xs)"
proof (induction xs rule: rev_induct)
  case Nil
  show ?case by (simp add: run_def ledger_inv_init)
next
  case (snoc x xs)
  then show ?case by (simp only: run_snoc ledger_inv_step)
qed

section \<open>Idempotency and quarantine\<close>

lemma settled_keep:
  assumes "ledger_inv db" and "rid < raw_record_id_seq db" and "settled db rid up"
  shows "settled (fst (process_one db x)) rid up"
proof -
  let ?db' = "fst (process_one db x)"
  from process_summary [OF assms(1), of x] obtain rts prs ies where s:
    "record_type ?db' = record_type db @ rts"
    "processed_record ?db' = processed_record db @ prs"
    "\<forall>p\<in>set prs. pr_raw_data_id p = raw_record_id_seq db"
    "ingest_error ?db' = ingest_error db @ ies"
    "\<forall>e\<in>set ies. ie_raw_data_id e = raw_record_id_seq db"
    by blast
  from s(3) assms(2) have "filter (\<lambda>p. pr_raw_data_id p = rid) prs = []"
    by (auto simp: filter_empty_conv)
  with s(2) have f: "facts_of ?db' rid = facts_of db rid" by (simp add: facts_of_def)
  from s(5) assms(2) have "filter (\<lambda>e. ie_raw_data_id e = rid) ies = []"
    by (auto simp: filter_empty_conv)
  with s(4) have e: "errors_of ?db' rid = errors_of db rid" by (simp add: errors_of_def)
  show ?thesis
  proof (cases up)
    case (Rejected reason)
    with assms(3) show ?thesis by (simp add: settled_def f e)
  next
    case (Accepted dev name t v)
    with assms(3) obtain p where p: "p \<in> set (processed_record db)"
      "stores_event db dev name t v p" "pr_raw_data_id p \<le> rid"
      "facts_of db rid = (if pr_raw_data_id p = rid then [p] else [])"
      and noerr: "errors_of db rid = []"
      by (auto simp: settled_def list_ex_iff)
    from p(2) s(1) have "stores_event ?db' dev name t v p" by (rule stores_event_mono)
    with p s(2) noerr show ?thesis
      unfolding Accepted settled_def upstream.case list_ex_iff f e by auto
  qed
qed

lemma settled_new:
  assumes "ledger_inv db"
  shows "settled (fst (process_one db (payload, now, up))) (raw_record_id_seq db) up"
proof (cases up)
  case (Rejected reason)
  from assms have "filter (\<lambda>p. pr_raw_data_id p = raw_record_id_seq db) (processed_record db) = []"
    and "filter (\<lambda>e. ie_raw_data_id e = raw_record_id_seq db) (ingest_error db) = []"
    by (auto simp: ledger_inv_def filter_empty_conv)
  then show ?thesis
    unfolding Rejected process_rejected [OF assms]
    by (simp add: settled_def facts_of_def errors_of_def)
next
  case (Accepted dev name t v)
  let ?db' = "fst (process_one db (payload, now, Accepted dev name t v))"
  let ?rid = "raw_record_id_seq db"
  from process_accepted [OF assms, of payload now dev name t v]
  obtain ty rts prs where s:
    "type_name ?db' ty = Some name"
    "processed_record ?db' = processed_record db @ prs"
    "prs = [\<lparr>pr_id = processed_record_id_seq db, pr_device_id = dev,
                  pr_raw_data_id = ?rid, pr_record_time = t, pr_type = ty,
                  pr_value = v\<rparr>] \<and>
            (dev, ty, t, v) \<notin> set (map event_key (processed_record db)) \<or>
          prs = [] \<and> (dev, ty, t, v) \<in> set (map event_key (processed_record db))"
    "ingest_error ?db' = ingest_error db"
    by blast
  from assms have old: "filter (\<lambda>p. pr_raw_data_id p = ?rid) (processed_record db) = []"
    and olde: "filter (\<lambda>e. ie_raw_data_id e = ?rid) (ingest_error db) = []"
    and below: "\<forall>p\<in>set (processed_record db). pr_raw_data_id p < ?rid"
    by (auto simp: ledger_inv_def filter_empty_conv)
  from olde s(4) have e: "errors_of ?db' ?rid = []" by (simp add: errors_of_def)
  from s(3) show ?thesis
  proof
    assume a: "prs = [\<lparr>pr_id = processed_record_id_seq db, pr_device_id = dev,
                  pr_raw_data_id = ?rid, pr_record_time = t, pr_type = ty,
                  pr_value = v\<rparr>] \<and>
            (dev, ty, t, v) \<notin> set (map event_key (processed_record db))"
    let ?row = "\<lparr>pr_id = processed_record_id_seq db, pr_device_id = dev,
                  pr_raw_data_id = ?rid, pr_record_time = t, pr_type = ty, pr_value = v\<rparr>"
    from a s(2) old have f: "facts_of ?db' ?rid = [?row]" by (simp add: facts_of_def)
    from s(1) have st: "stores_event ?db' dev name t v ?row" by (simp add: stores_event_def)
    from a s(2) have "?row \<in> set (processed_record ?db')" by simp
    with f st e show ?thesis
      unfolding Accepted settled_def upstream.case list_ex_iff
      by (intro conjI bexI [of _ ?row]) simp_all
  next
    assume a: "prs = [] \<and> (dev, ty, t, v) \<in> set (map event_key (processed_record db))"
    then obtain p where p: "p \<in> set (processed_record db)" "event_key p = (dev, ty, t, v)"
      by auto
    from p(2) s(1) have st: "stores_event ?db' dev name t v p"
      by (simp add: stores_event_def event_key_def)
    from p(1) below have lt: "pr_raw_data_id p < ?rid" by simp
    from a s(2) old have f: "facts_of ?db' ?rid = []" by (simp add: facts_of_def)
    from a s(2) p(1) have "p \<in> set (processed_record ?db')" by simp
    with f st e lt show ?thesis
      unfolding Accepted settled_def upstream.case list_ex_iff
      by (intro conjI bexI [of _ p]) simp_all
  qed
qed

lemma run_raw_ids:
  "raw_record_id_seq (run init_db xs) = int (length xs) + 1 \<and>
   map rr_id (raw_record (run init_db xs)) = map (\<lambda>i. int i + 1) [0..<length xs]"
proof (induction xs rule: rev_induct)
  case Nil
  show ?case by (simp add: run_def init_db_def)
next
  case (snoc x xs)
  from process_summary [OF ledger_inv_run, of xs x] snoc show ?case
    unfolding run_snoc by auto
qed

lemma run_settled:
  "i < length xs \<Longrightarrow> settled (run init_db xs) (int i + 1) (snd (snd (xs ! i)))"
proof (induction xs rule: rev_induct)
  case Nil
  then show ?case by simp
next
  case (snoc x xs)
  obtain payload now up where x: "x = (payload, now, up)" by (cases x) auto
  have seq: "raw_record_id_seq (run init_db xs) = int (length xs) + 1"
    using run_raw_ids [of xs] by simp
  show ?case
  proof (cases "i < length xs")
    case True
    with snoc.IH have "settled (run init_db xs) (int i + 1) (snd (snd (xs ! i)))" by simp
    moreover from True seq have "int i + 1 < raw_record_id_seq (run init_db xs)" by simp
    ultimately have "settled (fst (process_one (run init_db xs) x)) (int i + 1) (snd (snd (xs ! i)))"
      using ledger_inv_run [of xs] by (intro settled_keep)
    with True show ?thesis by (simp add: run_snoc nth_append)
  next
    case False
    with snoc.prems have i: "i = length xs" by simp
    have "settled (fst (process_one (run init_db xs) (payload, now, up)))
            (raw_record_id_seq (run init_db xs)) up"
      by (rule settled_new [OF ledger_inv_run])
    then show ?thesis by (simp add: run_snoc i seq x)
  qed
qed


lemma stored_once:
  assumes "ledger_inv db" and "p \<in> set (processed_record db)" and "stores_event db dev name t v p"
  shows "length (filter (stores_event db dev name t v) (processed_record db)) = 1"
proof (rule length_filter_unique [where k = event_key and c = "(dev, pr_type p, t, v)"])
  from assms(1) show "distinct (map event_key (processed_record db))"
    by (simp add: ledger_inv_def uq_processed_event_def)
next
  fix q
  assume "q \<in> set (processed_record db)" and q: "stores_event db dev name t v q"
  from assms(1) have "uq_record_type_name (record_type db)" by (simp add: ledger_inv_def)
  from type_name_inj [OF this, of "pr_type q" name "pr_type p"] q assms(3)
  have "pr_type q = pr_type p" by (simp add: stores_event_def)
  with q show "event_key q = (dev, pr_type p, t, v)"
    by (simp add: stores_event_def event_key_def)
next
  from assms(2,3) show "\<exists>x\<in>set (processed_record db). stores_event db dev name t v x" by blast
qed

text \<open>
  C1. Logical and structural idempotency. In every state that the write path reaches,
  no two \<open>processed_record\<close> rows have the same \<open>raw_data_id\<close> and no two have the same
  \<open>(device_id, type, record_time, value)\<close>. Hence however often an event is submitted,
  in identical payloads or in different ones, exactly one fact stores it; and an insert
  that repeats the raw id or the logical event of a stored fact is suppressed as a
  duplicate and leaves the fact table as it was.
\<close>

theorem idempotent_writes:
  "uq_processed_by_raw (processed_record (run init_db xs)) \<and>
   uq_processed_event (processed_record (run init_db xs)) \<and>
   (\<forall>i<length xs. \<forall>dev name t v.
      snd (snd (xs ! i)) = Accepted dev name t v \<longrightarrow>
      length (filter (stores_event (run init_db xs) dev name t v)
                (processed_record (run init_db xs))) = 1) \<and>
   (\<forall>p\<in>set (processed_record db).
      snd (insert_processed db dev' (pr_raw_data_id p) t' ty' v') = Duplicate \<and>
      processed_record (fst (insert_processed db dev' (pr_raw_data_id p) t' ty' v')) =
        processed_record db \<and>
      snd (insert_processed db (pr_device_id p) raw' (pr_record_time p) (pr_type p) (pr_value p)) =
        Duplicate \<and>
      processed_record
        (fst (insert_processed db (pr_device_id p) raw' (pr_record_time p) (pr_type p) (pr_value p))) =
        processed_record db)"
proof (intro conjI allI impI ballI)
  note inv = ledger_inv_run [of xs]
  from inv show "uq_processed_by_raw (processed_record (run init_db xs))"
    by (simp add: ledger_inv_def)
  from inv show "uq_processed_event (processed_record (run init_db xs))"
    by (simp add: ledger_inv_def)
  {
    fix i dev name t v
    assume "i < length xs" and "snd (snd (xs ! i)) = Accepted dev name t v"
    with run_settled [of i xs] obtain p where "p \<in> set (processed_record (run init_db xs))"
      and "stores_event (run init_db xs) dev name t v p"
      by (auto simp: settled_def list_ex_iff)
    with inv show "length (filter (stores_event (run init_db xs) dev name t v)
                (processed_record (run init_db xs))) = 1"
      by (rule stored_once)
  }
  {
    fix p
    assume p: "p \<in> set (processed_record db)"
    then have c1: "list_ex (\<lambda>q. pr_raw_data_id q = pr_raw_data_id p \<or> event_key q = k) (processed_record db)"
      for k by (auto simp: list_ex_iff)
    from p have c2: "list_ex (\<lambda>q. pr_raw_data_id q = raw' \<or> event_key q = event_key p) (processed_record db)"
      by (auto simp: list_ex_iff)
    show "snd (insert_processed db dev' (pr_raw_data_id p) t' ty' v') = Duplicate"
      by (simp add: insert_processed_def Let_def c1)
    show "processed_record (fst (insert_processed db dev' (pr_raw_data_id p) t' ty' v')) =
        processed_record db"
      by (simp add: insert_processed_def Let_def c1)
    have k: "event_key \<lparr>pr_id = j, pr_device_id = pr_device_id p, pr_raw_data_id = raw',
                pr_record_time = pr_record_time p, pr_type = pr_type p, pr_value = pr_value p\<rparr> =
             event_key p" for j
      by (simp add: event_key_def)
    show "snd (insert_processed db (pr_device_id p) raw' (pr_record_time p) (pr_type p) (pr_value p)) =
        Duplicate"
      by (simp add: insert_processed_def Let_def k c2)
    show "processed_record
        (fst (insert_processed db (pr_device_id p) raw' (pr_record_time p) (pr_type p) (pr_value p))) =
        processed_record db"
      by (simp add: insert_processed_def Let_def k c2)
  }
qed

theorem idempotent_writes_witness:
  "uq_processed_by_raw (processed_record replayed) \<and>
   uq_processed_event (processed_record replayed) \<and>
   snd (snd (replay ! 2)) = Accepted 42 ''platform_extension_ticks'' 10 100 \<and>
   length (filter (stores_event replayed 42 ''platform_extension_ticks'' 10 100)
             (processed_record replayed)) = 1 \<and>
   \<lparr>pr_id = 1, pr_device_id = 42, pr_raw_data_id = 1, pr_record_time = 10, pr_type = 1, pr_value = 100\<rparr>
     \<in> set (processed_record replayed) \<and>
   snd (insert_processed replayed 7 1 35 3 50) = Duplicate \<and>
   snd (insert_processed replayed 42 9 10 1 100) = Duplicate"
proof -
  let ?p = "\<lparr>pr_id = 1, pr_device_id = 42, pr_raw_data_id = 1, pr_record_time = 10,
              pr_type = 1, pr_value = 100\<rparr>"
  note t = idempotent_writes [where xs = replay and db = replayed and dev' = 7 and t' = 35
      and ty' = 3 and v' = 50 and raw' = 9, folded replayed_def]
  from t have a: "uq_processed_by_raw (processed_record replayed)" by (rule conjunct1)
  from t have b: "uq_processed_event (processed_record replayed)" by (elim conjE)
  have i: "2 < length replay" by (simp add: replay_def)
  have c: "snd (snd (replay ! 2)) = Accepted 42 ''platform_extension_ticks'' 10 100"
    by (simp add: replay_def)
  from t have "\<forall>i<length replay. \<forall>dev name t v.
      snd (snd (replay ! i)) = Accepted dev name t v \<longrightarrow>
      length (filter (stores_event replayed dev name t v) (processed_record replayed)) = 1"
    by (elim conjE)
  with i c have d: "length (filter (stores_event replayed 42 ''platform_extension_ticks'' 10 100)
             (processed_record replayed)) = 1"
    by blast
  have m: "?p \<in> set (processed_record replayed)" by (simp add: replayed_processed)
  from t have "\<forall>p\<in>set (processed_record replayed).
      snd (insert_processed replayed 7 (pr_raw_data_id p) 35 3 50) = Duplicate \<and>
      processed_record (fst (insert_processed replayed 7 (pr_raw_data_id p) 35 3 50)) =
        processed_record replayed \<and>
      snd (insert_processed replayed (pr_device_id p) 9 (pr_record_time p) (pr_type p) (pr_value p)) =
        Duplicate \<and>
      processed_record
        (fst (insert_processed replayed (pr_device_id p) 9 (pr_record_time p) (pr_type p) (pr_value p))) =
        processed_record replayed"
    by (elim conjE)
  from bspec [OF this m]
  have e: "snd (insert_processed replayed 7 1 35 3 50) = Duplicate"
    and f: "snd (insert_processed replayed 42 9 10 1 100) = Duplicate"
    by simp_all
  from a b c d m e f show ?thesis by (intro conjI)
qed

text \<open>
  The claim C2 as stated fails on a replay: the third submission of \<open>replay\<close> repeats the
  first event, its insert is suppressed as a duplicate, and its raw record has neither a
  fact nor an error.
\<close>

theorem quarantine_incomplete_on_replay: "\<not> quarantine_complete replayed"
  by (simp add: quarantine_complete_def facts_of_def errors_of_def replayed_processed replayed_errors
      replayed_def replay_def run_simps)

text \<open>
  C2, amended. After processing, every raw record is referenced by at most one fact and
  at most one error, never by both: the raw record of a rejected payload has no fact and
  exactly one error, with the reason of the rejection; the raw record of an accepted
  event has no error and exactly one fact, unless the insert was suppressed as a
  duplicate, in which case it has neither and a fact that references another raw
  record stores the event.
\<close>

theorem quarantine_after_processing:
  "map rr_id (raw_record (run init_db xs)) = map (\<lambda>i. int i + 1) [0..<length xs] \<and>
   (\<forall>i<length xs.
      case snd (snd (xs ! i)) of
        Rejected reason \<Rightarrow>
          facts_of (run init_db xs) (int i + 1) = [] \<and>
          map ie_error (errors_of (run init_db xs) (int i + 1)) = [reason]
      | Accepted dev name t v \<Rightarrow>
          errors_of (run init_db xs) (int i + 1) = [] \<and>
          (length (facts_of (run init_db xs) (int i + 1)) = 1 \<or>
           facts_of (run init_db xs) (int i + 1) = [] \<and>
           (\<exists>p\<in>set (processed_record (run init_db xs)).
              pr_raw_data_id p \<noteq> int i + 1 \<and> stores_event (run init_db xs) dev name t v p)))"
proof (intro conjI allI impI)
  show "map rr_id (raw_record (run init_db xs)) = map (\<lambda>i. int i + 1) [0..<length xs]"
    using run_raw_ids [of xs] by simp
next
  fix i
  assume "i < length xs"
  then have s: "settled (run init_db xs) (int i + 1) (snd (snd (xs ! i)))" by (rule run_settled)
  show "case snd (snd (xs ! i)) of
        Rejected reason \<Rightarrow>
          facts_of (run init_db xs) (int i + 1) = [] \<and>
          map ie_error (errors_of (run init_db xs) (int i + 1)) = [reason]
      | Accepted dev name t v \<Rightarrow>
          errors_of (run init_db xs) (int i + 1) = [] \<and>
          (length (facts_of (run init_db xs) (int i + 1)) = 1 \<or>
           facts_of (run init_db xs) (int i + 1) = [] \<and>
           (\<exists>p\<in>set (processed_record (run init_db xs)).
              pr_raw_data_id p \<noteq> int i + 1 \<and> stores_event (run init_db xs) dev name t v p))"
  proof (cases "snd (snd (xs ! i))")
    case (Rejected reason)
    with s show ?thesis by (simp add: settled_def)
  next
    case (Accepted dev name t v)
    with s obtain p where p: "p \<in> set (processed_record (run init_db xs))"
      "stores_event (run init_db xs) dev name t v p" "pr_raw_data_id p \<le> int i + 1"
      "facts_of (run init_db xs) (int i + 1) = (if pr_raw_data_id p = int i + 1 then [p] else [])"
      and e: "errors_of (run init_db xs) (int i + 1) = []"
      by (auto simp: settled_def list_ex_iff)
    show ?thesis
    proof (cases "pr_raw_data_id p = int i + 1")
      case True
      with p(4) e show ?thesis by (simp add: Accepted)
    next
      case False
      with p e show ?thesis unfolding Accepted upstream.case by auto
    qed
  qed
qed


theorem quarantine_after_processing_witness:
  "map rr_id (raw_record replayed) = [1, 2, 3] \<and>
   snd (snd (replay ! 1)) = Rejected ''timestamp: field required'' \<and>
   facts_of replayed 2 = [] \<and>
   map ie_error (errors_of replayed 2) = [''timestamp: field required''] \<and>
   snd (snd (replay ! 2)) = Accepted 42 ''platform_extension_ticks'' 10 100 \<and>
   errors_of replayed 3 = [] \<and>
   facts_of replayed 3 = []"
proof -
  note t = quarantine_after_processing [of replay, folded replayed_def]
  from t have "map rr_id (raw_record replayed) = map (\<lambda>i. int i + 1) [0..<length replay]"
    by (rule conjunct1)
  then have a: "map rr_id (raw_record replayed) = [1, 2, 3]"
    by (simp add: replay_def upt_rec)
  from t have all: "\<forall>i<length replay.
      case snd (snd (replay ! i)) of
        Rejected reason \<Rightarrow>
          facts_of replayed (int i + 1) = [] \<and> map ie_error (errors_of replayed (int i + 1)) = [reason]
      | Accepted dev name t v \<Rightarrow>
          errors_of replayed (int i + 1) = [] \<and>
          (length (facts_of replayed (int i + 1)) = 1 \<or>
           facts_of replayed (int i + 1) = [] \<and>
           (\<exists>p\<in>set (processed_record replayed).
              pr_raw_data_id p \<noteq> int i + 1 \<and> stores_event replayed dev name t v p))"
    by (rule conjunct2)
  have r: "snd (snd (replay ! 1)) = Rejected ''timestamp: field required''"
    by (simp add: replay_def)
  have c: "snd (snd (replay ! 2)) = Accepted 42 ''platform_extension_ticks'' 10 100"
    by (simp add: replay_def)
  have "1 < length replay" by (simp add: replay_def)
  with all have "case snd (snd (replay ! 1)) of
        Rejected reason \<Rightarrow>
          facts_of replayed (int 1 + 1) = [] \<and> map ie_error (errors_of replayed (int 1 + 1)) = [reason]
      | Accepted dev name t v \<Rightarrow>
          errors_of replayed (int 1 + 1) = [] \<and>
          (length (facts_of replayed (int 1 + 1)) = 1 \<or>
           facts_of replayed (int 1 + 1) = [] \<and>
           (\<exists>p\<in>set (processed_record replayed).
              pr_raw_data_id p \<noteq> int 1 + 1 \<and> stores_event replayed dev name t v p))"
    by blast
  with r have b: "facts_of replayed 2 = [] \<and>
      map ie_error (errors_of replayed 2) = [''timestamp: field required'']"
    by simp
  have "2 < length replay" by (simp add: replay_def)
  with all have "case snd (snd (replay ! 2)) of
        Rejected reason \<Rightarrow>
          facts_of replayed (int 2 + 1) = [] \<and> map ie_error (errors_of replayed (int 2 + 1)) = [reason]
      | Accepted dev name t v \<Rightarrow>
          errors_of replayed (int 2 + 1) = [] \<and>
          (length (facts_of replayed (int 2 + 1)) = 1 \<or>
           facts_of replayed (int 2 + 1) = [] \<and>
           (\<exists>p\<in>set (processed_record replayed).
              pr_raw_data_id p \<noteq> int 2 + 1 \<and> stores_event replayed dev name t v p))"
    by blast
  with c have d: "errors_of replayed 3 = []" by simp
  have e: "facts_of replayed 3 = []" by (simp add: facts_of_def replayed_processed)
  from a r b c d e show ?thesis by (intro conjI) simp_all
qed

text \<open>
  Requests are independent (section 5 of the specification), so the steps of two requests
  may interleave. When two deliveries of one event are both stored in \<open>raw_record\<close>
  before either is inserted and the second is inserted first, the first raw record is
  the one left with neither a fact nor an error, and the fact references the later raw
  record.
\<close>

lemma interleaved_duplicate:
  "facts_of
     (fst (insert_processed
        (fst (insert_processed
           (fst (insert_raw
              (fst (insert_raw init_db (telemetry 42 ''platform_extension_ticks'' 100 ''t10'') 11))
              (telemetry 42 ''platform_extension_ticks'' 100 ''t10'') 12))
           42 2 10 1 100))
        42 1 10 1 100)) 1 = [] \<and>
   errors_of
     (fst (insert_processed
        (fst (insert_processed
           (fst (insert_raw
              (fst (insert_raw init_db (telemetry 42 ''platform_extension_ticks'' 100 ''t10'') 11))
              (telemetry 42 ''platform_extension_ticks'' 100 ''t10'') 12))
           42 2 10 1 100))
        42 1 10 1 100)) 1 = [] \<and>
   map pr_raw_data_id
     (processed_record
        (fst (insert_processed
           (fst (insert_processed
              (fst (insert_raw
                 (fst (insert_raw init_db (telemetry 42 ''platform_extension_ticks'' 100 ''t10'') 11))
                 (telemetry 42 ''platform_extension_ticks'' 100 ''t10'') 12))
              42 2 10 1 100))
           42 1 10 1 100))) = [2]"
  by (simp add: facts_of_def errors_of_def run_simps)

end
